theory Spec2Isabelle
  imports Complex_Main "HOL-Library.Sublist"
begin

section \<open>Python strings\<close>

text \<open>
  A Python \<open>str\<close> is a sequence of Unicode code points; \<open>len\<close>, \<open>strip\<close>, \<open>splitlines\<close>
  and \<open>isupper\<close> all work on code points. A string is therefore a list of natural
  numbers, and \<open>u\<close> reads an ASCII literal.
\<close>

type_synonym ustring = "nat list"

definition u :: "string \<Rightarrow> ustring" where
  "u s = map of_char s"

text \<open>The characters \<open>str.strip()\<close> removes (\<open>str.isspace\<close>).\<close>

definition is_space :: "nat \<Rightarrow> bool" where
  "is_space c = ((9 \<le> c \<and> c \<le> 13) \<or> (28 \<le> c \<and> c \<le> 32) \<or> c = 133 \<or> c = 160
     \<or> c = 5760 \<or> (8192 \<le> c \<and> c \<le> 8202) \<or> c = 8232 \<or> c = 8233 \<or> c = 8239
     \<or> c = 8287 \<or> c = 12288)"

text \<open>The line boundaries of \<open>str.splitlines()\<close>; CR LF counts as one.\<close>

definition is_linebreak :: "nat \<Rightarrow> bool" where
  "is_linebreak c = ((10 \<le> c \<and> c \<le> 13) \<or> (28 \<le> c \<and> c \<le> 30) \<or> c = 133
     \<or> c = 8232 \<or> c = 8233)"

definition strip :: "ustring \<Rightarrow> ustring" where
  "strip s = rev (dropWhile is_space (rev (dropWhile is_space s)))"

definition startswith :: "ustring \<Rightarrow> ustring \<Rightarrow> bool" where
  "startswith s p = prefix p s"

definition endswith :: "ustring \<Rightarrow> ustring \<Rightarrow> bool" where
  "endswith s p = suffix p s"

text \<open>\<open>sub in s\<close> on strings.\<close>

fun contains :: "ustring \<Rightarrow> ustring \<Rightarrow> bool" where
  "contains sub [] = (sub = [])"
| "contains sub (c # cs) = (prefix sub (c # cs) \<or> contains sub cs)"

fun splitlines :: "ustring \<Rightarrow> ustring list" where
  "splitlines [] = []"
| "splitlines (c # cs) =
     (if is_linebreak c then
        [] # splitlines (if c = 13 \<and> cs \<noteq> [] \<and> hd cs = 10 then tl cs else cs)
      else (case splitlines cs of [] \<Rightarrow> [[c]] | l # ls \<Rightarrow> (c # l) # ls))"

text \<open>
  \<open>s.replace(old, new)\<close>: the leftmost occurrences, not overlapping. With an empty
  \<open>old\<close> Python puts \<open>new\<close> before every character and at the end.
\<close>

function replace :: "ustring \<Rightarrow> ustring \<Rightarrow> ustring \<Rightarrow> ustring" where
  "replace old new [] = (if old = [] then new else [])"
| "replace old new (c # cs) =
     (if old = [] then new @ concat (map (\<lambda>d. d # new) (c # cs))
      else if prefix old (c # cs) then new @ replace old new (drop (length old) (c # cs))
      else c # replace old new cs)"
  by pat_completeness auto
termination
  by (relation "measure (\<lambda>(old, new, s). length s)") auto

text \<open>
  \<open>s.split(sep)\<close> for a separator that is not empty (Python raises \<open>ValueError\<close> on
  an empty one; every separator of the program is a literal, \<open>'#'\<close> or two newlines).
\<close>

function split :: "ustring \<Rightarrow> ustring \<Rightarrow> ustring list" where
  "split sep [] = [[]]"
| "split sep (c # cs) =
     (if sep \<noteq> [] \<and> prefix sep (c # cs) then [] # split sep (drop (length sep) (c # cs))
      else (case split sep cs of [] \<Rightarrow> [[c]] | p # ps \<Rightarrow> (c # p) # ps))"
  by pat_completeness auto
termination
  by (relation "measure (\<lambda>(sep, s). length s)") auto

text \<open>\<open>sep.join(xs)\<close>.\<close>

fun join :: "ustring \<Rightarrow> ustring list \<Rightarrow> ustring" where
  "join sep [] = []"
| "join sep [x] = x"
| "join sep (x # y # ys) = x @ sep @ join sep (y # ys)"

text \<open>
  \<open>str.isupper()\<close> is true when no character is lowercase or titlecase and at least one is
  uppercase. The case of an ASCII character is fixed; beyond ASCII it is a table of the
  interpreter's Unicode database, which is a parameter here.
\<close>

record ucd =
  cp_lower :: "nat \<Rightarrow> bool"
  cp_upper :: "nat \<Rightarrow> bool"
  cp_title :: "nat \<Rightarrow> bool"

definition islower_cp :: "ucd \<Rightarrow> nat \<Rightarrow> bool" where
  "islower_cp db c = (if c < 128 then 97 \<le> c \<and> c \<le> 122 else cp_lower db c)"

definition isupper_cp :: "ucd \<Rightarrow> nat \<Rightarrow> bool" where
  "isupper_cp db c = (if c < 128 then 65 \<le> c \<and> c \<le> 90 else cp_upper db c)"

definition istitle_cp :: "ucd \<Rightarrow> nat \<Rightarrow> bool" where
  "istitle_cp db c = (if c < 128 then False else cp_title db c)"

definition isupper :: "ucd \<Rightarrow> ustring \<Rightarrow> bool" where
  "isupper db s = (\<not> list_ex (\<lambda>c. islower_cp db c \<or> istitle_cp db c) s
                   \<and> list_ex (isupper_cp db) s)"

section \<open>The formatter: \<open>format_post\<close>\<close>

definition nl :: ustring where
  "nl = [10]"

text \<open>
  The header indicators, as the interpreter reads the literals of the source file: the
  first is a colon, the next seven are the code points of the emoji literals as they stand
  in the file, the rest are ASCII words.
\<close>

definition header_indicators :: "ustring list" where
  "header_indicators =
     [u '':'',
      [240, 376, 8221, 165], [240, 376, 8217, 161], [240, 376, 353, 8364],
      [240, 376, 338, 381], [240, 376, 164, 8221], [240, 376, 8212, 163, 239, 184],
      [239, 191, 189],
      u ''Breaking News'', u ''Why'', u ''Impact'', u ''Take'', u ''Question'',
      u ''Call to Action'']"

definition bullet_glyph :: ustring where
  "bullet_glyph = [226, 8364, 162]"

definition is_header :: "ucd \<Rightarrow> nat \<Rightarrow> ustring \<Rightarrow> bool" where
  "is_header db i line =
     (list_ex (\<lambda>indicator. contains indicator line) header_indicators
      \<or> (i > 0 \<and> length line \<le> 50 \<and> isupper db line)
      \<or> (i > 0 \<and> endswith line (u '':'')))"

definition is_bullet :: "ustring \<Rightarrow> bool" where
  "is_bullet line = (startswith line bullet_glyph \<or> startswith line (u ''-''))"

text \<open>
  The loop over \<open>enumerate(lines)\<close>. The state is the pair of \<open>formatted_sections\<close> and
  \<open>current_section\<close>; \<open>i\<close> is the index of the line in \<open>lines\<close>.
\<close>

definition flush :: "ustring list \<Rightarrow> ustring list \<Rightarrow> ustring list" where
  "flush sections current = (if current \<noteq> [] then sections @ [join nl current] else sections)"

fun format_lines ::
  "ucd \<Rightarrow> nat \<Rightarrow> ustring list \<Rightarrow> ustring list \<Rightarrow> ustring list \<Rightarrow> ustring list \<times> ustring list"
where
  "format_lines db i [] sections current = (sections, current)"
| "format_lines db i (line # rest) sections current =
     (if startswith line (u ''---'') then format_lines db (Suc i) rest sections current
      else if is_header db i line then
        format_lines db (Suc i) rest (flush sections current @ [line]) []
      else if is_bullet line then
        (if current \<noteq> [] \<and> \<not> is_bullet (last current)
         then format_lines db (Suc i) rest (sections @ [join nl current]) [line]
         else format_lines db (Suc i) rest sections (current @ [line]))
      else if startswith line (u ''#'') then
        format_lines db (Suc i) rest (flush sections current @ [line]) []
      else format_lines db (Suc i) rest sections (current @ [line]))"

text \<open>The second loop: the sections, stripped, with one newline before each but the first.\<close>

fun join_sections :: "nat \<Rightarrow> ustring list \<Rightarrow> ustring \<Rightarrow> ustring" where
  "join_sections i [] formatted_text = formatted_text"
| "join_sections i (section # rest) formatted_text =
     (if strip section = [] then join_sections (Suc i) rest formatted_text
      else join_sections (Suc i) rest
             ((if i > 0 then formatted_text @ nl else formatted_text) @ strip section))"

text \<open>The hashtag step: everything after the first \<open>#\<close> becomes the trailing line.\<close>

definition hashtag_step :: "ustring \<Rightarrow> ustring" where
  "hashtag_step formatted_text =
     (if contains (u ''#'') formatted_text then
        (case split (u ''#'') formatted_text of
           main_content # hashtag_parts \<Rightarrow>
             strip main_content @ nl @ u ''#'' @ join (u '' #'') (map strip hashtag_parts)
         | [] \<Rightarrow> formatted_text)
      else formatted_text)"

definition clean_lines :: "ustring \<Rightarrow> ustring list" where
  "clean_lines content =
     map strip (filter (\<lambda>line. strip line \<noteq> []) (splitlines (replace (u ''**'') [] content)))"

definition format_post :: "ucd \<Rightarrow> ustring \<Rightarrow> ustring" where
  "format_post db content =
     (let lines = clean_lines content;
          (sections, current) = format_lines db 0 lines [] [];
          formatted_sections = flush sections current;
          formatted_text = join_sections 0 formatted_sections []
      in strip (hashtag_step formatted_text))"

section \<open>The browser, the file system and the clock\<close>

text \<open>
  Everything the poster does goes through Selenium, the operating system or the clock.
  Each such call is an event; a run is the list of its events, in order. What a call
  answers is not the program's to decide: the world gives the reply, knowing the events so
  far and the call. A call into Selenium or the operating system may raise instead of
  returning; the clock, \<open>time.sleep\<close> and \<open>print\<close> always return.
\<close>

type_synonym driver = nat
type_synonym elem = nat

datatype pyval = PStr string | PInt int | PFloat real | PBool bool | PNone

text \<open>A cookie is a dictionary from attribute names to values, in insertion order.\<close>

type_synonym cookie = "(string \<times> pyval) list"

datatype exn =
    ValueError string
  | PyException string
  | TypeError string
  | KeyError string
  | IndexError string
  | External string

datatype locator = By_CSS_SELECTOR | By_XPATH | By_CLASS_NAME | By_ID

datatype arg = ArgElem elem | ArgText ustring

text \<open>
  The parts of a printed line: literal text and the values formatted into it, among them a
  string of the program and a list of such strings.
\<close>

datatype piece =
    Lit string | Str string | Val "pyval option" | Err exn | Txt ustring | Txts "ustring list"

datatype call =
    InstallChromeDriver
  | NewChrome "string list"
  | ExecuteCdpCmd driver string
  | MaximizeWindow driver
  | Quit driver
  | Get driver string
  | Refresh driver
  | CurrentUrl driver
  | PageSource driver
  | FindElement driver locator string
  | WaitPresence driver nat locator string
  | WaitClickable driver nat locator string
  | IsDisplayed elem
  | Clear elem
  | SendKeys elem ustring
  | ExecuteScript driver string "arg list"
  | SaveScreenshot driver string
  | GetCookies driver
  | AddCookie driver cookie
  | PathExists string
  | ListDir string
  | IsDir string
  | OpenRead string
  | ReadText string
  | PickleLoad string
  | OpenWrite string
  | PickleDump string "cookie list"
  | Remove string
  | Makedirs string
  | WriteFile string ustring
  | NowTimestamp
  | NowStrftime
  | Sleep nat
  | Print "piece list"

datatype reply =
    Raises string
  | RUnit
  | RBool bool
  | RStr string
  | RText ustring
  | RNames "string list"
  | RElem elem
  | RDriver driver
  | RCookies "cookie list"

record world =
  unicode :: ucd
  answer :: "call list \<Rightarrow> call \<Rightarrow> reply"
  clock_timestamp :: "call list \<Rightarrow> real"
  clock_strftime :: "call list \<Rightarrow> string"

text \<open>
  A computation takes the events so far and returns its result, an exception (\<open>Inl\<close>) or a
  value (\<open>Inr\<close>), with the events extended.
\<close>

type_synonym 'a prog = "call list \<Rightarrow> (exn + 'a) \<times> call list"

definition ret :: "'a \<Rightarrow> 'a prog" where
  "ret x = (\<lambda>t. (Inr x, t))"

definition raise :: "exn \<Rightarrow> 'a prog" where
  "raise e = (\<lambda>t. (Inl e, t))"

definition lift :: "exn + 'a \<Rightarrow> 'a prog" where
  "lift r = (\<lambda>t. (r, t))"

definition bindp :: "'a prog \<Rightarrow> ('a \<Rightarrow> 'b prog) \<Rightarrow> 'b prog" where
  "bindp m f = (\<lambda>t. case m t of (Inl e, t') \<Rightarrow> (Inl e, t') | (Inr x, t') \<Rightarrow> f x t')"

definition seq :: "unit prog \<Rightarrow> 'a prog \<Rightarrow> 'a prog" where
  "seq m k = bindp m (\<lambda>_. k)"

text \<open>
  \<open>try: m except Exception as e: h e\<close>. Every exception of the model is of class
  \<open>Exception\<close>, so a bare \<open>except:\<close> is the same handler.
\<close>

definition try_except :: "'a prog \<Rightarrow> (exn \<Rightarrow> 'a prog) \<Rightarrow> 'a prog" where
  "try_except m h = (\<lambda>t. case m t of (Inl e, t') \<Rightarrow> h e t' | (Inr x, t') \<Rightarrow> (Inr x, t'))"

text \<open>
  \<open>try: m finally: fin\<close>: \<open>fin\<close> runs whatever \<open>m\<close> did; the result is that of \<open>m\<close>
  unless \<open>fin\<close> raises.
\<close>

definition try_finally :: "'a prog \<Rightarrow> unit prog \<Rightarrow> 'a prog" where
  "try_finally m fin =
     (\<lambda>t. case m t of (r, t') \<Rightarrow> (case fin t' of (Inl e, t'') \<Rightarrow> (Inl e, t'') | (Inr _, t'') \<Rightarrow> (r, t'')))"

text \<open>
  The calls. \<open>perform\<close> is a call whose value the program does not use; the others
  return a value of one type, and a reply of another type is read as the call raising.
\<close>

definition ill_typed :: exn where
  "ill_typed = External ''reply of the wrong type''"

definition perform :: "world \<Rightarrow> call \<Rightarrow> unit prog" where
  "perform w c = (\<lambda>t. (case answer w t c of Raises m \<Rightarrow> Inl (External m) | _ \<Rightarrow> Inr (), t @ [c]))"

definition ask_bool :: "world \<Rightarrow> call \<Rightarrow> bool prog" where
  "ask_bool w c = (\<lambda>t. (case answer w t c of Raises m \<Rightarrow> Inl (External m) | RBool b \<Rightarrow> Inr b
                          | _ \<Rightarrow> Inl ill_typed, t @ [c]))"

definition ask_str :: "world \<Rightarrow> call \<Rightarrow> string prog" where
  "ask_str w c = (\<lambda>t. (case answer w t c of Raises m \<Rightarrow> Inl (External m) | RStr s \<Rightarrow> Inr s
                         | _ \<Rightarrow> Inl ill_typed, t @ [c]))"

definition ask_text :: "world \<Rightarrow> call \<Rightarrow> ustring prog" where
  "ask_text w c = (\<lambda>t. (case answer w t c of Raises m \<Rightarrow> Inl (External m) | RText s \<Rightarrow> Inr s
                          | _ \<Rightarrow> Inl ill_typed, t @ [c]))"

definition ask_names :: "world \<Rightarrow> call \<Rightarrow> string list prog" where
  "ask_names w c = (\<lambda>t. (case answer w t c of Raises m \<Rightarrow> Inl (External m) | RNames x \<Rightarrow> Inr x
                           | _ \<Rightarrow> Inl ill_typed, t @ [c]))"

definition ask_elem :: "world \<Rightarrow> call \<Rightarrow> elem prog" where
  "ask_elem w c = (\<lambda>t. (case answer w t c of Raises m \<Rightarrow> Inl (External m) | RElem x \<Rightarrow> Inr x
                          | _ \<Rightarrow> Inl ill_typed, t @ [c]))"

definition ask_driver :: "world \<Rightarrow> call \<Rightarrow> driver prog" where
  "ask_driver w c = (\<lambda>t. (case answer w t c of Raises m \<Rightarrow> Inl (External m) | RDriver x \<Rightarrow> Inr x
                            | _ \<Rightarrow> Inl ill_typed, t @ [c]))"

definition ask_cookies :: "world \<Rightarrow> call \<Rightarrow> cookie list prog" where
  "ask_cookies w c = (\<lambda>t. (case answer w t c of Raises m \<Rightarrow> Inl (External m) | RCookies x \<Rightarrow> Inr x
                             | _ \<Rightarrow> Inl ill_typed, t @ [c]))"

definition now_timestamp :: "world \<Rightarrow> real prog" where
  "now_timestamp w = (\<lambda>t. (Inr (clock_timestamp w t), t @ [NowTimestamp]))"

definition now_strftime :: "world \<Rightarrow> string prog" where
  "now_strftime w = (\<lambda>t. (Inr (clock_strftime w t), t @ [NowStrftime]))"

text \<open>\<open>time.sleep\<close>, in milliseconds.\<close>

definition sleep :: "nat \<Rightarrow> unit prog" where
  "sleep ms = (\<lambda>t. (Inr (), t @ [Sleep ms]))"

definition print :: "piece list \<Rightarrow> unit prog" where
  "print ps = (\<lambda>t. (Inr (), t @ [Print ps]))"

definition say :: "string \<Rightarrow> unit prog" where
  "say s = print [Lit s]"

text \<open>The events a computation adds to those it started from.\<close>

definition new_events :: "'a prog \<Rightarrow> call list \<Rightarrow> call list" where
  "new_events m t = drop (length t) (snd (m t))"

section \<open>The poster and its credential store\<close>

text \<open>
  The fields of \<open>LinkedInPoster\<close>. \<open>options\<close> holds the command-line arguments of the
  Chrome options (the two experimental options never change after \<open>__init__\<close>);
  \<open>email\<close> and \<open>password\<close> are what \<open>os.getenv\<close> returned, \<open>None\<close> when unset.
\<close>

record poster =
  options :: "string list"
  cookies_file :: string
  email :: "ustring option"
  password :: "ustring option"

definition init_poster :: "ustring option \<Rightarrow> ustring option \<Rightarrow> poster" where
  "init_poster e p =
     \<lparr>options = [''--no-sandbox'', ''--disable-dev-shm-usage'', ''--disable-notifications'',
                  ''--disable-blink-features=AutomationControlled''],
      cookies_file = ''linkedin_cookies.pkl'', email = e, password = p\<rparr>"

definition essential_cookies :: "string list" where
  "essential_cookies = [''li_at'', ''JSESSIONID'']"

text \<open>\<open>cookie['name'] in essential_cookies\<close>; a cookie with no name raises \<open>KeyError\<close>.\<close>

definition name_is_essential :: "cookie \<Rightarrow> exn + bool" where
  "name_is_essential cookie =
     (case map_of cookie ''name'' of
        None \<Rightarrow> Inl (KeyError ''name'')
      | Some v \<Rightarrow> Inr (list_ex (\<lambda>n. v = PStr n) essential_cookies))"

text \<open>\<open>any(... for cookie in cookies)\<close> stops at the first cookie that has one.\<close>

fun any_essential :: "cookie list \<Rightarrow> exn + bool" where
  "any_essential [] = Inr False"
| "any_essential (cookie # rest) =
     (case name_is_essential cookie of
        Inl e \<Rightarrow> Inl e
      | Inr True \<Rightarrow> Inr True
      | Inr False \<Rightarrow> any_essential rest)"

definition save_cookies :: "world \<Rightarrow> poster \<Rightarrow> driver \<Rightarrow> bool prog" where
  "save_cookies w self driver =
     try_except
       (seq (sleep 3000)
       (bindp (ask_cookies w (GetCookies driver)) (\<lambda>cookies.
        bindp (lift (any_essential cookies)) (\<lambda>found.
        if found then
          seq (perform w (OpenWrite (cookies_file self)))
         (seq (perform w (PickleDump (cookies_file self) cookies))
         (seq (say ''Cookies saved successfully!'')
              (ret True)))
        else
          seq (say ''Warning: Essential cookies not found'')
              (ret False)))))
       (\<lambda>e. seq (print [Lit ''Error saving cookies: '', Err e]) (ret False))"

text \<open>
  \<open>cookie['expiry'] <= current_time\<close>, where \<open>current_time\<close> is a float. Python compares an
  integer, a float or a boolean with a float by value, and raises \<open>TypeError\<close> for a string
  or \<open>None\<close>. (A float is a real number here: not-a-number is left out.)
\<close>

definition le_time :: "pyval \<Rightarrow> real \<Rightarrow> exn + bool" where
  "le_time v current_time =
     (case v of
        PInt i \<Rightarrow> Inr (real_of_int i \<le> current_time)
      | PFloat r \<Rightarrow> Inr (r \<le> current_time)
      | PBool b \<Rightarrow> Inr ((if b then 1 else 0) \<le> current_time)
      | PStr s \<Rightarrow> Inl (TypeError ''<= not supported between str and float'')
      | PNone \<Rightarrow> Inl (TypeError ''<= not supported between NoneType and float''))"

text \<open>\<open>cookie.pop(k, None)\<close>.\<close>

definition pop :: "string \<Rightarrow> cookie \<Rightarrow> cookie" where
  "pop k cookie = filter (\<lambda>kv. fst kv \<noteq> k) cookie"

definition strip_attributes :: "cookie \<Rightarrow> cookie" where
  "strip_attributes cookie = fold pop [''expiry'', ''expires'', ''domain''] cookie"

text \<open>The first loop of \<open>load_cookies\<close>: the list \<open>valid_cookies\<close> it builds.\<close>

fun valid_cookies :: "real \<Rightarrow> cookie list \<Rightarrow> exn + cookie list" where
  "valid_cookies current_time [] = Inr []"
| "valid_cookies current_time (cookie # rest) =
     (case (case map_of cookie ''expiry'' of
              None \<Rightarrow> Inr False
            | Some v \<Rightarrow> le_time v current_time) of
        Inl e \<Rightarrow> Inl e
      | Inr True \<Rightarrow> valid_cookies current_time rest
      | Inr False \<Rightarrow>
          (case valid_cookies current_time rest of
             Inl e \<Rightarrow> Inl e
           | Inr vs \<Rightarrow> Inr (strip_attributes cookie # vs)))"

text \<open>The second loop: each cookie goes to the driver; a refusal is printed and skipped.\<close>

fun add_cookies :: "world \<Rightarrow> driver \<Rightarrow> cookie list \<Rightarrow> unit prog" where
  "add_cookies w driver [] = ret ()"
| "add_cookies w driver (cookie # rest) =
     seq (try_except (perform w (AddCookie driver cookie))
            (\<lambda>e. print [Lit ''Warning: Could not add cookie '', Val (map_of cookie ''name''),
                         Lit '': '', Err e]))
         (add_cookies w driver rest)"

definition load_cookies :: "world \<Rightarrow> poster \<Rightarrow> driver \<Rightarrow> bool prog" where
  "load_cookies w self driver =
     try_except
       (bindp (ask_bool w (PathExists (cookies_file self))) (\<lambda>exists.
        if \<not> exists then
          seq (say ''No cookies file found'') (ret False)
        else
          seq (perform w (OpenRead (cookies_file self)))
         (bindp (ask_cookies w (PickleLoad (cookies_file self))) (\<lambda>cookies.
          bindp (now_timestamp w) (\<lambda>current_time.
          bindp (lift (valid_cookies current_time cookies)) (\<lambda>valid.
          if valid = [] then
            seq (say ''No valid cookies found'') (ret False)
          else
            seq (add_cookies w driver valid)
           (seq (say ''Cookies loaded successfully!'')
                (ret True))))))))
       (\<lambda>e. seq (print [Lit ''Error loading cookies: '', Err e]) (ret False))"

section \<open>Logging in\<close>

definition feed_url :: string where
  "feed_url = ''https://www.linkedin.com/feed/''"

definition login_url :: string where
  "login_url = ''https://www.linkedin.com/login''"

definition login_indicators :: "string list" where
  "login_indicators = [''share-box-feed-entry__trigger'', ''global-nav__me-trigger'',
                       ''feed-identity-module'', ''global-nav__primary-link'']"

text \<open>
  A \<open>for\<close> loop that can return from the function gives \<open>Some\<close> of the returned value, and
  \<open>None\<close> when it runs to its end.
\<close>

fun login_indicator_loop :: "world \<Rightarrow> driver \<Rightarrow> string list \<Rightarrow> bool option prog" where
  "login_indicator_loop w driver [] = ret None"
| "login_indicator_loop w driver (selector # rest) =
     bindp (try_except
              (bindp (ask_elem w (WaitPresence driver 15 By_CLASS_NAME selector)) (\<lambda>element.
               bindp (ask_bool w (IsDisplayed element)) (\<lambda>displayed.
               if displayed then
                 seq (print [Lit ''Login verified with selector: '', Str selector])
                     (ret (Some True))
               else ret None)))
              (\<lambda>e. ret None))
       (\<lambda>returned. case returned of
          Some b \<Rightarrow> ret (Some b)
        | None \<Rightarrow> login_indicator_loop w driver rest)"

definition check_login_status :: "world \<Rightarrow> driver \<Rightarrow> bool prog" where
  "check_login_status w driver =
     try_except
       (seq (perform w (Get driver feed_url))
       (seq (sleep 5000)
       (bindp (ask_str w (CurrentUrl driver)) (\<lambda>current_url.
        if \<not> prefix ''https://www.linkedin.com/feed'' current_url then
          seq (say ''Not on feed page after navigation'') (ret False)
        else
          bindp (login_indicator_loop w driver login_indicators) (\<lambda>returned.
          case returned of
            Some b \<Rightarrow> ret b
          | None \<Rightarrow> seq (say ''Could not verify login status'') (ret False))))))
       (\<lambda>e. seq (print [Lit ''Error checking login status: '', Err e]) (ret False))"

definition home_url :: string where
  "home_url = ''https://www.linkedin.com''"

text \<open>
  Lines 157 to 172 of \<open>login_to_linkedin\<close>: the home page and the attempt with stored
  cookies. \<open>Some True\<close> is the \<open>return True\<close> of line 169; \<open>None\<close> means the function goes on
  to the manual login.
\<close>

definition cookie_login :: "world \<Rightarrow> poster \<Rightarrow> driver \<Rightarrow> bool option prog" where
  "cookie_login w self driver =
     seq (perform w (Get driver home_url))
    (seq (sleep 5000)
    (bindp (ask_bool w (PathExists (cookies_file self))) (\<lambda>exists.
     if exists then
       seq (say ''Found existing cookies, attempting to use them...'')
      (bindp (load_cookies w self driver) (\<lambda>loaded.
       if loaded then
         seq (perform w (Refresh driver))
        (seq (sleep 5000)
        (bindp (check_login_status w driver) (\<lambda>logged_in.
         if logged_in then
           seq (say ''Successfully logged in using saved cookies!'') (ret (Some True))
         else
           seq (say ''Cookie login failed, removing cookie file'')
          (seq (perform w (Remove (cookies_file self)))
               (ret None)))))
       else ret None))
     else ret None)))"

text \<open>\<open>not self.email\<close>: the variable is unset, or set to the empty string.\<close>

definition missing :: "ustring option \<Rightarrow> bool" where
  "missing v = (case v of None \<Rightarrow> True | Some s \<Rightarrow> s = [])"

definition credentials_error :: exn where
  "credentials_error =
     ValueError ''Please set LINKEDIN_EMAIL and LINKEDIN_PASSWORD in .env file for login''"

text \<open>\<open>Keys.RETURN\<close> of Selenium, the code point U+E006.\<close>

definition key_return :: ustring where
  "key_return = [57350]"

text \<open>Lines 175 to 211: the manual login, with its own \<open>try\<close> around the form.\<close>

definition manual_login :: "world \<Rightarrow> poster \<Rightarrow> driver \<Rightarrow> bool prog" where
  "manual_login w self driver =
     (if missing (email self) \<or> missing (password self) then raise credentials_error
      else
        seq (say ''Performing manual login...'')
       (seq (perform w (Get driver login_url))
       (seq (sleep 5000)
       (try_except
          (bindp (ask_elem w (FindElement driver By_ID ''username'')) (\<lambda>email_field.
           seq (perform w (Clear email_field))
          (seq (sleep 1000)
          (seq (perform w (SendKeys email_field (the (email self))))
          (seq (sleep 2000)
          (bindp (ask_elem w (FindElement driver By_ID ''password'')) (\<lambda>password_field.
           seq (perform w (Clear password_field))
          (seq (sleep 1000)
          (seq (perform w (SendKeys password_field (the (password self))))
          (seq (sleep 2000)
          (seq (perform w (SendKeys password_field key_return))
          (seq (sleep 10000)
          (bindp (check_login_status w driver) (\<lambda>logged_in.
           if logged_in then
             seq (say ''Manual login successful!'')
            (bindp (save_cookies w self driver) (\<lambda>saved.
             seq (if saved then say ''New login cookies saved'' else ret ())
                 (ret True)))
           else
             seq (say ''Login verification failed'') (ret False)))))))))))))))
          (\<lambda>e. seq (print [Lit ''Error during manual login: '', Err e]) (ret False))))))"

text \<open>Lines 213 to 217: the handler of the outer \<open>try\<close>. It reads the address twice.\<close>

definition on_login_error :: "world \<Rightarrow> driver \<Rightarrow> exn \<Rightarrow> bool prog" where
  "on_login_error w driver e =
     seq (print [Lit ''Login process failed: '', Err e])
    (bindp (ask_str w (CurrentUrl driver)) (\<lambda>current_url.
     seq (if current_url \<noteq> login_url then
            bindp (ask_str w (CurrentUrl driver)) (\<lambda>url. print [Lit ''Current URL: '', Str url])
          else ret ())
         (ret False)))"

definition login_to_linkedin :: "world \<Rightarrow> poster \<Rightarrow> driver \<Rightarrow> bool prog" where
  "login_to_linkedin w self driver =
     try_except
       (bindp (cookie_login w self driver) (\<lambda>returned.
        case returned of
          Some b \<Rightarrow> ret b
        | None \<Rightarrow> manual_login w self driver))
       (on_login_error w driver)"

section \<open>Publishing a post\<close>

definition click_script :: string where
  "click_script = ''arguments[0].click();''"

text \<open>
  Lines 227 to 253: the three ways to find and click the button that opens the composer.
  Each is a \<open>try\<close> whose \<open>except\<close> prints that it failed; the value is
  \<open>post_button_found\<close>.
\<close>

definition click_post_button :: "world \<Rightarrow> driver \<Rightarrow> bool prog" where
  "click_post_button w driver =
     bindp (try_except
              (bindp (ask_elem w (FindElement driver By_CSS_SELECTOR
                                    ''button[data-control-name='share.sharebox_focus']''))
                 (\<lambda>post_button.
               seq (perform w (ExecuteScript driver click_script [ArgElem post_button]))
                   (ret True)))
              (\<lambda>e. seq (say ''Approach 1 failed'') (ret False)))
       (\<lambda>post_button_found.
     bindp (if \<not> post_button_found then
              try_except
                (bindp (ask_elem w (FindElement driver By_XPATH
                                      ''//button[contains(.,'Start a post')]''))
                   (\<lambda>post_button.
                 seq (perform w (ExecuteScript driver click_script [ArgElem post_button]))
                     (ret True)))
                (\<lambda>e. seq (say ''Approach 2 failed'') (ret False))
            else ret post_button_found)
       (\<lambda>post_button_found.
     if \<not> post_button_found then
       try_except
         (bindp (ask_elem w (FindElement driver By_XPATH
                               ''//div[contains(@class, 'share-box-feed-entry__trigger')]''))
            (\<lambda>post_button.
          seq (perform w (ExecuteScript driver click_script [ArgElem post_button]))
              (ret True)))
         (\<lambda>e. seq (say ''Approach 3 failed'') (ret False))
     else ret post_button_found))"

text \<open>Lines 223 to 253: open the feed, then try the three ways.\<close>

definition open_composer :: "world \<Rightarrow> driver \<Rightarrow> bool prog" where
  "open_composer w driver =
     seq (perform w (Get driver feed_url))
    (seq (sleep 5000)
         (click_post_button w driver))"

text \<open>Lines 264 to 286: the editor, \<open>None\<close> when no way finds it.\<close>

definition find_post_field :: "world \<Rightarrow> driver \<Rightarrow> elem option prog" where
  "find_post_field w driver =
     bindp (try_except
              (bindp (ask_elem w (WaitPresence driver 10 By_CSS_SELECTOR
                                    ''div[data-placeholder='What do you want to talk about?']''))
                 (\<lambda>element. ret (Some element)))
              (\<lambda>e. seq (say ''Editor approach 1 failed'') (ret None)))
       (\<lambda>post_field.
     bindp (if post_field = None then
              try_except
                (bindp (ask_elem w (FindElement driver By_CSS_SELECTOR ''div.ql-editor''))
                   (\<lambda>element. ret (Some element)))
                (\<lambda>e. seq (say ''Editor approach 2 failed'') (ret None))
            else ret post_field)
       (\<lambda>post_field.
     if post_field = None then
       try_except
         (bindp (ask_elem w (FindElement driver By_XPATH
                               ''//div[contains(@class, 'editor-content')]''))
            (\<lambda>element. ret (Some element)))
         (\<lambda>e. seq (say ''Editor approach 3 failed'') (ret None))
     else ret post_field))"

definition clear_script :: string where
  "clear_script = ''arguments[0].innerHTML = '' @ [CHR 0x27, CHR 0x27] @ '';''"

definition append_script :: string where
  "append_script = ''arguments[0].innerHTML += arguments[1] + '<br><br>';''"

text \<open>Lines 299 to 308: one script call for each paragraph that is not blank.\<close>

fun enter_paragraphs :: "world \<Rightarrow> driver \<Rightarrow> elem \<Rightarrow> ustring list \<Rightarrow> unit prog" where
  "enter_paragraphs w driver post_field [] = ret ()"
| "enter_paragraphs w driver post_field (paragraph # rest) =
     seq (if strip paragraph \<noteq> [] then
            seq (perform w (ExecuteScript driver append_script
                              [ArgElem post_field, ArgText (replace nl (u ''<br>'') paragraph)]))
                (sleep 500)
          else ret ())
         (enter_paragraphs w driver post_field rest)"

text \<open>Lines 292 to 310.\<close>

definition enter_content :: "world \<Rightarrow> driver \<Rightarrow> elem \<Rightarrow> ustring \<Rightarrow> unit prog" where
  "enter_content w driver post_field content =
     seq (perform w (ExecuteScript driver clear_script [ArgElem post_field]))
    (seq (sleep 2000)
    (seq (enter_paragraphs w driver post_field (split (nl @ nl) content))
         (sleep 3000)))"

text \<open>Lines 313 to 335: the button that submits the post.\<close>

definition find_submit_button :: "world \<Rightarrow> driver \<Rightarrow> elem option prog" where
  "find_submit_button w driver =
     bindp (try_except
              (bindp (ask_elem w (WaitClickable driver 10 By_CSS_SELECTOR
                                    ''button.share-actions__primary-action''))
                 (\<lambda>element. ret (Some element)))
              (\<lambda>e. seq (say ''Post button approach 1 failed'') (ret None)))
       (\<lambda>post_button.
     bindp (if post_button = None then
              try_except
                (bindp (ask_elem w (FindElement driver By_XPATH
                                      ''//button[contains(text(), 'Post')]''))
                   (\<lambda>element. ret (Some element)))
                (\<lambda>e. seq (say ''Post button approach 2 failed'') (ret None))
            else ret post_button)
       (\<lambda>post_button.
     if post_button = None then
       try_except
         (bindp (ask_elem w (FindElement driver By_CSS_SELECTOR ''button[type='submit']''))
            (\<lambda>element. ret (Some element)))
         (\<lambda>e. seq (say ''Post button approach 3 failed'') (ret None))
     else ret post_button))"

text \<open>
  Lines 223 to 341: everything up to the click that submits. When no way opened the
  composer, the screenshot is taken and the exception raised (lines 255 to 259).
\<close>

definition compose_and_submit :: "world \<Rightarrow> driver \<Rightarrow> ustring \<Rightarrow> unit prog" where
  "compose_and_submit w driver content =
     bindp (open_composer w driver) (\<lambda>post_button_found.
     if \<not> post_button_found then
       bindp (now_strftime w) (\<lambda>timestamp.
       seq (perform w (SaveScreenshot driver (''pre_post_error_'' @ timestamp @ ''.png'')))
           (raise (PyException ''Could not find post button'')))
     else
       seq (sleep 5000)
      (bindp (find_post_field w driver) (\<lambda>post_field.
       case post_field of
         None \<Rightarrow> raise (PyException ''Could not find post input field'')
       | Some field \<Rightarrow>
           seq (enter_content w driver field content)
          (bindp (find_submit_button w driver) (\<lambda>post_button.
           case post_button of
             None \<Rightarrow> raise (PyException ''Could not find post button'')
           | Some button \<Rightarrow>
               perform w (ExecuteScript driver click_script [ArgElem button]))))))"

definition success_indicators :: "string list" where
  "success_indicators =
     [''//div[contains(@class, 'share-box-feed-entry__trigger')]'',
      ''//div[contains(@class, 'feed-shared-update-v2')]'',
      ''//span[contains(text(), 'Post successful')]'']"

text \<open>Lines 353 to 362: the probes, \<open>Some True\<close> when one returns from the function.\<close>

fun success_indicator_loop :: "world \<Rightarrow> driver \<Rightarrow> string list \<Rightarrow> bool option prog" where
  "success_indicator_loop w driver [] = ret None"
| "success_indicator_loop w driver (indicator # rest) =
     bindp (try_except
              (bindp (ask_elem w (WaitPresence driver 5 By_XPATH indicator)) (\<lambda>element.
               bindp (ask_bool w (IsDisplayed element)) (\<lambda>displayed.
               if displayed then
                 seq (print [Lit ''Post verified with indicator: '', Str indicator])
                     (ret (Some True))
               else ret None)))
              (\<lambda>e. ret None))
       (\<lambda>returned. case returned of
          Some b \<Rightarrow> ret (Some b)
        | None \<Rightarrow> success_indicator_loop w driver rest)"

definition unverified_warning :: call where
  "unverified_warning =
     Print [Lit ''Warning: Could not verify post success, but no errors detected'']"

text \<open>Lines 344 to 366: the wait, the probes, and the warning when none matched.\<close>

definition verify_post :: "world \<Rightarrow> driver \<Rightarrow> bool prog" where
  "verify_post w driver =
     seq (sleep 10000)
    (bindp (success_indicator_loop w driver success_indicators) (\<lambda>returned.
     case returned of
       Some b \<Rightarrow> ret b
     | None \<Rightarrow>
         seq (say ''Warning: Could not verify post success, but no errors detected'')
             (ret True)))"

text \<open>Lines 368 to 382: the handler. Reading the address is outside its inner \<open>try\<close>.\<close>

definition on_create_post_error :: "world \<Rightarrow> driver \<Rightarrow> exn \<Rightarrow> bool prog" where
  "on_create_post_error w driver e =
     seq (print [Lit ''Error creating post: '', Err e])
    (bindp (ask_str w (CurrentUrl driver)) (\<lambda>url.
     seq (print [Lit ''Current URL: '', Str url])
    (seq (try_except
            (bindp (now_strftime w) (\<lambda>timestamp.
             seq (perform w (SaveScreenshot driver (''error_screenshot_'' @ timestamp @ ''.png'')))
            (seq (print [Lit ''Error screenshot saved as error_screenshot_'', Str timestamp,
                         Lit ''.png''])
            (seq (say ''Page source preview:'')
            (bindp (ask_str w (PageSource driver)) (\<lambda>page_source.
             print [Str (take 1000 page_source)]))))))
            (\<lambda>e. ret ()))
         (ret False))))"

definition create_post :: "world \<Rightarrow> driver \<Rightarrow> ustring \<Rightarrow> bool prog" where
  "create_post w driver content =
     try_except
       (seq (compose_and_submit w driver content) (verify_post w driver))
       (on_create_post_error w driver)"

section \<open>The whole run: \<open>post_to_linkedin\<close>\<close>

text \<open>
  \<open>get_driver\<close> installs the driver binary, starts Chrome, registers the stealth script
  and then adds \<open>--headless\<close> to the options of the poster (too late for the browser it
  has just started). It returns the session and the poster as it has become.
\<close>

definition get_driver :: "world \<Rightarrow> poster \<Rightarrow> (driver \<times> poster) prog" where
  "get_driver w self =
     bindp (ask_str w InstallChromeDriver) (\<lambda>path.
     bindp (ask_driver w (NewChrome (options self))) (\<lambda>driver.
     seq (perform w (ExecuteCdpCmd driver ''Page.addScriptToEvaluateOnNewDocument''))
         (ret (driver, self\<lparr>options := options self @ [''--headless'']\<rparr>))))"

text \<open>
  \<open>get_latest_post\<close>, lines 429 to 484. The index of the first occurrence of one
  string in another is what the search of line 463 comes down to.
\<close>

fun first_index :: "ustring \<Rightarrow> ustring \<Rightarrow> nat option" where
  "first_index sub [] = (if sub = [] then Some 0 else None)"
| "first_index sub (c # cs) =
     (if prefix sub (c # cs) then Some 0 else map_option Suc (first_index sub cs))"

text \<open>
  Line 463: \<open>re.search\<close> with the pattern \<open>---POST.*?START---(.+?)---POST.*?END---\<close> and
  \<open>re.DOTALL\<close>, so that a dot matches every character. The search takes the leftmost
  start, and each lazy quantifier takes the shortest text for which the rest can still
  match. Every part of the pattern after a quantifier is a literal followed by a
  quantifier that accepts any text, so the match begins at the first \<open>---POST\<close>, goes on
  to the first \<open>START---\<close> after it, and the group is the text from there to the first
  \<open>---POST\<close> that leaves at least one character for the group, provided an \<open>END---\<close>
  follows. The result is the group, \<open>None\<close> when there is no match.
\<close>

definition search_post :: "ustring \<Rightarrow> ustring option" where
  "search_post content =
     (case first_index (u ''---POST'') content of
        None \<Rightarrow> None
      | Some i \<Rightarrow>
          (let after_post = drop (i + 7) content in
           case first_index (u ''START---'') after_post of
             None \<Rightarrow> None
           | Some j \<Rightarrow>
               (let after_start = drop (j + 8) after_post in
                case first_index (u ''---POST'') (drop 1 after_start) of
                  None \<Rightarrow> None
                | Some k \<Rightarrow>
                    (case first_index (u ''END---'') (drop (Suc k + 7) after_start) of
                       None \<Rightarrow> None
                     | Some m \<Rightarrow> Some (take (Suc k) after_start)))))"

text \<open>The literal of line 458, as the interpreter reads it from the file.\<close>

definition fire_literal :: ustring where
  "fire_literal = [240, 376, 8221, 165]"

text \<open>Lines 454 to 467: where the post is taken from.\<close>

definition find_post :: "ustring \<Rightarrow> exn + ustring" where
  "find_post content =
     (if contains (u ''---POST START---'') content \<and> contains (u ''---POST END---'') content then
        (case split (u ''---POST START---'') content of
           before # after # others \<Rightarrow>
             (case split (u ''---POST END---'') after of
                post_content # rest \<Rightarrow> Inr post_content
              | [] \<Rightarrow> Inl (IndexError ''list index out of range''))
         | _ \<Rightarrow> Inl (IndexError ''list index out of range''))
      else if contains fire_literal content \<and> contains (u ''#'') content
              \<and> contains (u ''Call to Action:'') content then
        Inr content
      else
        (case search_post content of
           Some matched \<Rightarrow> Inr matched
         | None \<Rightarrow> Inl (PyException ''Could not find valid post content'')))"

text \<open>Lines 453 to 479: the body of the inner \<open>try\<close>.\<close>

definition extract_post :: "ustring \<Rightarrow> exn + ustring" where
  "extract_post content =
     (case find_post content of
        Inl e \<Rightarrow> Inl e
      | Inr found \<Rightarrow>
          (let post_content = replace (u ''**'') [] (strip found) in
           if strip post_content = [] then
             Inl (PyException ''Found POST section but it was empty'')
           else Inr (strip post_content)))"

text \<open>
  Strings compare by code point, the shorter of two first when one begins the other;
  \<open>max\<close> returns the first of the greatest elements.
\<close>

fun str_le :: "string \<Rightarrow> string \<Rightarrow> bool" where
  "str_le [] b = True"
| "str_le (x # xs) [] = False"
| "str_le (x # xs) (y # ys) =
     (if x = y then str_le xs ys else (of_char x :: nat) < of_char y)"

fun max_str :: "string \<Rightarrow> string list \<Rightarrow> string" where
  "max_str best [] = best"
| "max_str best (d # ds) = max_str (if str_le d best then best else d) ds"

definition posts_dir :: string where
  "posts_dir = ''linkedin_posts''"

text \<open>The comprehension of line 436: one \<open>os.path.isdir\<close> for each name, in order.\<close>

fun directories_of :: "world \<Rightarrow> string list \<Rightarrow> string list prog" where
  "directories_of w [] = ret []"
| "directories_of w (d # ds) =
     bindp (ask_bool w (IsDir (posts_dir @ ''/'' @ d))) (\<lambda>is_dir.
     bindp (directories_of w ds) (\<lambda>rest.
     ret (if is_dir then d # rest else rest)))"

definition get_latest_post :: "world \<Rightarrow> ustring prog" where
  "get_latest_post w =
     bindp (ask_bool w (PathExists posts_dir)) (\<lambda>exists.
     if \<not> exists then raise (PyException ''No posts directory found'')
     else
       bindp (ask_names w (ListDir posts_dir)) (\<lambda>names.
       bindp (directories_of w names) (\<lambda>directories.
       case directories of
         [] \<Rightarrow> raise (PyException ''No post directories found'')
       | d # ds \<Rightarrow>
           (let latest_dir = max_str d ds;
                full_output_path = posts_dir @ ''/'' @ latest_dir @ ''/full_output.txt''
            in
            bindp (ask_bool w (PathExists full_output_path)) (\<lambda>exists.
            if \<not> exists then raise (PyException ''No full_output.txt found in latest directory'')
            else
              seq (perform w (OpenRead full_output_path))
             (bindp (ask_text w (ReadText full_output_path)) (\<lambda>content.
              seq (print [Lit ''Found content: '', Txt (take 500 content), Lit '' ...''])
             (try_except (lift (extract_post content))
                (\<lambda>e. seq (print [Lit ''Error extracting post content: '', Err e])
                    (seq (print [Lit ''Content structure: '', Txts (split (u ''---'') content)])
                    (raise (PyException
                       ''Could not extract valid post content from the output file''))))))))))))"

text \<open>
  Lines 388 to 396: up to and including \<open>driver = self.get_driver()\<close>. While this runs the
  variable \<open>driver\<close> is \<open>None\<close>.
\<close>

definition prepare :: "world \<Rightarrow> poster \<Rightarrow> ustring option \<Rightarrow> (ustring \<times> driver \<times> poster) prog" where
  "prepare w self content =
     bindp (case content of None \<Rightarrow> get_latest_post w | Some c \<Rightarrow> ret c) (\<lambda>content.
     bindp (get_driver w self) (\<lambda>(driver, self').
     ret (format_post (unicode w) content, driver, self')))"

definition log_dir :: string where
  "log_dir = ''linkedin_logs''"

text \<open>Lines 397 to 419: what the \<open>try\<close> does once \<open>driver\<close> is set.\<close>

definition publish :: "world \<Rightarrow> poster \<Rightarrow> driver \<Rightarrow> ustring \<Rightarrow> bool prog" where
  "publish w self driver formatted_content =
     seq (perform w (MaximizeWindow driver))
    (bindp (login_to_linkedin w self driver) (\<lambda>logged_in.
     if \<not> logged_in then raise (PyException ''Failed to login to LinkedIn'')
     else
       bindp (create_post w driver formatted_content) (\<lambda>created.
       if \<not> created then raise (PyException ''Failed to create post'')
       else
         bindp (now_strftime w) (\<lambda>timestamp.
         bindp (ask_bool w (PathExists log_dir)) (\<lambda>exists.
         seq (if \<not> exists then perform w (Makedirs log_dir) else ret ())
        (let log_file = log_dir @ ''/post_log_'' @ timestamp @ ''.txt'' in
         seq (perform w (OpenWrite log_file))
        (seq (perform w (WriteFile log_file (u (''Posted at: '' @ timestamp) @ nl)))
        (seq (perform w (WriteFile log_file (u ''Content:'' @ nl @ formatted_content @ nl)))
        (seq (print [Lit ''Successfully posted to LinkedIn! Log saved to '', Str log_file])
             (ret True))))))))))"

definition on_post_error :: "exn \<Rightarrow> bool prog" where
  "on_post_error e = seq (print [Lit ''Error posting to LinkedIn: '', Err e]) (ret False)"

text \<open>
  The \<open>try\<close>, its handler and its \<open>finally\<close>. When \<open>prepare\<close> raises, \<open>driver\<close> is still
  \<open>None\<close> and the \<open>finally\<close> does nothing; once it is set, the \<open>finally\<close> calls
  \<open>driver.quit()\<close> (a driver object is always true).
\<close>

definition post_to_linkedin :: "world \<Rightarrow> poster \<Rightarrow> ustring option \<Rightarrow> bool prog" where
  "post_to_linkedin w self content =
     (\<lambda>t. case prepare w self content t of
        (Inl e, t') \<Rightarrow> on_post_error e t'
      | (Inr (formatted_content, driver, self'), t') \<Rightarrow>
          try_finally
            (try_except (publish w self' driver formatted_content) on_post_error)
            (perform w (Quit driver)) t')"

section \<open>Reading a run\<close>

text \<open>
  \<open>emits P m\<close>: whatever the events so far, \<open>m\<close> keeps them and adds only events that
  satisfy \<open>P\<close>.
\<close>

definition emits :: "(call \<Rightarrow> bool) \<Rightarrow> 'a prog \<Rightarrow> bool" where
  "emits P m = (\<forall>t. \<exists>evs. snd (m t) = t @ evs \<and> list_all P evs)"

definition is_quit :: "call \<Rightarrow> bool" where
  "is_quit c = (case c of Quit d \<Rightarrow> True | _ \<Rightarrow> False)"

definition is_file_write :: "call \<Rightarrow> bool" where
  "is_file_write c =
     (case c of OpenWrite f \<Rightarrow> True | PickleDump f cs \<Rightarrow> True | WriteFile f s \<Rightarrow> True
      | _ \<Rightarrow> False)"

text \<open>A cookie whose name is one of the essential names.\<close>

definition essential :: "cookie \<Rightarrow> bool" where
  "essential cookie = list_ex (\<lambda>n. map_of cookie ''name'' = Some (PStr n)) essential_cookies"

text \<open>
  A cookie whose expiry is at or before the given time. A cookie with no expiry does not
  expire.
\<close>

definition expired :: "real \<Rightarrow> cookie \<Rightarrow> bool" where
  "expired current_time cookie =
     (case map_of cookie ''expiry'' of
        None \<Rightarrow> False
      | Some v \<Rightarrow> le_time v current_time = Inr True)"

text \<open>
  What \<open>load_cookies\<close>, started after the events \<open>t\<close>, reads from the credential file, and the
  time it reads from the clock, when it gets that far.
\<close>

definition stored_cookies :: "world \<Rightarrow> poster \<Rightarrow> call list \<Rightarrow> cookie list" where
  "stored_cookies w self t =
     (case answer w (t @ [PathExists (cookies_file self), OpenRead (cookies_file self)])
             (PickleLoad (cookies_file self)) of
        RCookies cookies \<Rightarrow> cookies
      | _ \<Rightarrow> [])"

definition time_of_load :: "world \<Rightarrow> poster \<Rightarrow> call list \<Rightarrow> real" where
  "time_of_load w self t =
     clock_timestamp w (t @ [PathExists (cookies_file self), OpenRead (cookies_file self),
                             PickleLoad (cookies_file self)])"

section \<open>Reading the login\<close>

definition is_add_cookie :: "call \<Rightarrow> bool" where
  "is_add_cookie c = (case c of AddCookie d k \<Rightarrow> True | _ \<Rightarrow> False)"

definition harmless :: "call \<Rightarrow> bool" where
  "harmless c = (\<not> is_quit c \<and> \<not> is_add_cookie c)"

text \<open>What the handler of \<open>login_to_linkedin\<close> may do: print, and read the address.\<close>

definition reads_address :: "driver \<Rightarrow> call \<Rightarrow> bool" where
  "reads_address driver c = (case c of Print ps \<Rightarrow> True | CurrentUrl d \<Rightarrow> d = driver | _ \<Rightarrow> False)"

text \<open>
  The browser gives its address when the handler, started after the events \<open>t\<close> with the
  exception \<open>e\<close>, asks for it: at line 215 and, when that answer is not the login page,
  again at line 216.
\<close>

definition address_readable :: "world \<Rightarrow> driver \<Rightarrow> exn \<Rightarrow> call list \<Rightarrow> bool" where
  "address_readable w driver e t =
     (case answer w (t @ [Print [Lit ''Login process failed: '', Err e]]) (CurrentUrl driver) of
        RStr current_url \<Rightarrow>
          current_url = login_url
          \<or> (case answer w (t @ [Print [Lit ''Login process failed: '', Err e], CurrentUrl driver])
                     (CurrentUrl driver) of
                RStr url \<Rightarrow> True
              | _ \<Rightarrow> False)
      | _ \<Rightarrow> False)"

text \<open>The events of \<open>login_to_linkedin\<close> up to its call of \<open>load_cookies\<close>.\<close>

definition before_load :: "poster \<Rightarrow> driver \<Rightarrow> call list" where
  "before_load self driver =
     [Get driver home_url, Sleep 5000, PathExists (cookies_file self),
      Print [Lit ''Found existing cookies, attempting to use them...'']]"

definition raises :: "reply \<Rightarrow> bool" where
  "raises r = (case r of Raises m \<Rightarrow> True | _ \<Rightarrow> False)"

text \<open>
  The credential file exists and can be opened, and every record that \<open>load_cookies\<close> reads
  from it has an expiry at or before the time it reads from the clock.
\<close>

definition only_expired_stored :: "world \<Rightarrow> poster \<Rightarrow> call list \<Rightarrow> bool" where
  "only_expired_stored w self t =
     (answer w t (PathExists (cookies_file self)) = RBool True
      \<and> \<not> raises (answer w (t @ [PathExists (cookies_file self)]) (OpenRead (cookies_file self)))
      \<and> (case answer w (t @ [PathExists (cookies_file self), OpenRead (cookies_file self)])
                (PickleLoad (cookies_file self)) of
           RCookies cookies \<Rightarrow> list_all (expired (time_of_load w self t)) cookies
         | _ \<Rightarrow> False))"

text \<open>
  The home page opens, the credential file exists, and when \<open>load_cookies\<close> reads it every
  record in it has expired.
\<close>

definition stale_store :: "world \<Rightarrow> poster \<Rightarrow> driver \<Rightarrow> call list \<Rightarrow> bool" where
  "stale_store w self driver t =
     (\<not> raises (answer w t (Get driver home_url))
      \<and> answer w (t @ [Get driver home_url, Sleep 5000]) (PathExists (cookies_file self)) = RBool True
      \<and> only_expired_stored w self (t @ before_load self driver))"

text \<open>The events of \<open>login_to_linkedin\<close> up to the return of \<open>load_cookies\<close> in that case.\<close>

definition after_stale_load :: "poster \<Rightarrow> driver \<Rightarrow> call list" where
  "after_stale_load self driver =
     before_load self driver
     @ [PathExists (cookies_file self), OpenRead (cookies_file self),
        PickleLoad (cookies_file self), NowTimestamp, Print [Lit ''No valid cookies found'']]"

text \<open>
  What the manual login does first, lines 180 and 181: it announces itself and opens the
  login page.
\<close>

definition manual_login_opening :: "driver \<Rightarrow> call list" where
  "manual_login_opening driver =
     [Print [Lit ''Performing manual login...''], Get driver login_url]"

text \<open>
  The events of the manual login up to line 188, where the email has been typed into the
  field \<open>email_field\<close>.
\<close>

definition email_typed :: "poster \<Rightarrow> driver \<Rightarrow> elem \<Rightarrow> call list" where
  "email_typed self driver email_field =
     manual_login_opening driver
     @ [Sleep 5000, FindElement driver By_ID ''username'', Clear email_field, Sleep 1000,
        SendKeys email_field (the (email self))]"

text \<open>
  The manual login, started after the events \<open>t\<close>, gets that far: the login page opens,
  the field with the id \<open>username\<close> is found, and it can be cleared.
\<close>

definition email_field_ready :: "world \<Rightarrow> driver \<Rightarrow> elem \<Rightarrow> call list \<Rightarrow> bool" where
  "email_field_ready w driver email_field t =
     (\<not> raises (answer w (t @ [Print [Lit ''Performing manual login...'']]) (Get driver login_url))
      \<and> answer w (t @ manual_login_opening driver @ [Sleep 5000])
            (FindElement driver By_ID ''username'') = RElem email_field
      \<and> \<not> raises (answer w (t @ manual_login_opening driver
                                @ [Sleep 5000, FindElement driver By_ID ''username''])
                      (Clear email_field)))"

section \<open>Reading the publishing\<close>

text \<open>
  What the handler of \<open>create_post\<close> may do: print, read the clock, the address and the
  page source, and take a screenshot.
\<close>

definition diagnostic :: "driver \<Rightarrow> call \<Rightarrow> bool" where
  "diagnostic driver c =
     (case c of
        Print ps \<Rightarrow> True
      | NowStrftime \<Rightarrow> True
      | CurrentUrl d \<Rightarrow> d = driver
      | SaveScreenshot d name \<Rightarrow> d = driver
      | PageSource d \<Rightarrow> d = driver
      | _ \<Rightarrow> False)"

text \<open>The screenshot call of line 258, made after the events \<open>t\<close>.\<close>

definition pre_post_screenshot :: "world \<Rightarrow> driver \<Rightarrow> call list \<Rightarrow> call" where
  "pre_post_screenshot w driver t =
     SaveScreenshot driver (''pre_post_error_'' @ clock_strftime w t @ ''.png'')"

text \<open>
  One way of opening the composer fails, after the events \<open>t\<close>: the element is not found,
  or the click on it raises. The events of the failed attempt follow, with the message its
  handler prints.
\<close>

definition click_fails :: "world \<Rightarrow> driver \<Rightarrow> locator \<Rightarrow> string \<Rightarrow> call list \<Rightarrow> bool" where
  "click_fails w driver how selector t =
     (case answer w t (FindElement driver how selector) of
        RElem button \<Rightarrow>
          raises (answer w (t @ [FindElement driver how selector])
                    (ExecuteScript driver click_script [ArgElem button]))
      | _ \<Rightarrow> True)"

definition after_click_fails ::
  "world \<Rightarrow> driver \<Rightarrow> locator \<Rightarrow> string \<Rightarrow> string \<Rightarrow> call list \<Rightarrow> call list" where
  "after_click_fails w driver how selector message t =
     t @ FindElement driver how selector
       # (case answer w t (FindElement driver how selector) of
            RElem button \<Rightarrow> [ExecuteScript driver click_script [ArgElem button]]
          | _ \<Rightarrow> [])
       @ [Print [Lit message]]"

text \<open>
  None of the three ways opens the composer: the feed page loads, and each way, tried in
  turn, fails. \<open>composer_not_opened\<close> is the events of the run up to that point.
\<close>

definition composer_not_opened :: "world \<Rightarrow> driver \<Rightarrow> call list \<Rightarrow> call list" where
  "composer_not_opened w driver t =
     after_click_fails w driver By_XPATH
       ''//div[contains(@class, 'share-box-feed-entry__trigger')]'' ''Approach 3 failed''
       (after_click_fails w driver By_XPATH
          ''//button[contains(.,'Start a post')]'' ''Approach 2 failed''
          (after_click_fails w driver By_CSS_SELECTOR
             ''button[data-control-name='share.sharebox_focus']'' ''Approach 1 failed''
             (t @ [Get driver feed_url, Sleep 5000])))"

definition no_way_opens_composer :: "world \<Rightarrow> driver \<Rightarrow> call list \<Rightarrow> bool" where
  "no_way_opens_composer w driver t =
     (\<not> raises (answer w t (Get driver feed_url))
      \<and> click_fails w driver By_CSS_SELECTOR
            ''button[data-control-name='share.sharebox_focus']''
            (t @ [Get driver feed_url, Sleep 5000])
      \<and> click_fails w driver By_XPATH ''//button[contains(.,'Start a post')]''
            (after_click_fails w driver By_CSS_SELECTOR
               ''button[data-control-name='share.sharebox_focus']'' ''Approach 1 failed''
               (t @ [Get driver feed_url, Sleep 5000]))
      \<and> click_fails w driver By_XPATH
            ''//div[contains(@class, 'share-box-feed-entry__trigger')]''
            (after_click_fails w driver By_XPATH
               ''//button[contains(.,'Start a post')]'' ''Approach 2 failed''
               (after_click_fails w driver By_CSS_SELECTOR
                  ''button[data-control-name='share.sharebox_focus']'' ''Approach 1 failed''
                  (t @ [Get driver feed_url, Sleep 5000]))))"

text \<open>
  No probe of the verification matches: asked in turn, after the events \<open>t\<close>, each wait
  either ends without an element or returns an element that is not reported as
  displayed.
\<close>

fun no_indicator_shown :: "world \<Rightarrow> driver \<Rightarrow> string list \<Rightarrow> call list \<Rightarrow> bool" where
  "no_indicator_shown w driver [] t = True"
| "no_indicator_shown w driver (indicator # rest) t =
     (case answer w t (WaitPresence driver 5 By_XPATH indicator) of
        RElem element \<Rightarrow>
          answer w (t @ [WaitPresence driver 5 By_XPATH indicator]) (IsDisplayed element)
            \<noteq> RBool True
          \<and> no_indicator_shown w driver rest
                (t @ [WaitPresence driver 5 By_XPATH indicator, IsDisplayed element])
      | _ \<Rightarrow> no_indicator_shown w driver rest (t @ [WaitPresence driver 5 By_XPATH indicator]))"

section \<open>Reading the formatter\<close>

text \<open>
  The lines of the input that the first loop does not skip: trimmed, not empty, and not
  beginning with three dashes.
\<close>

definition kept_lines :: "ustring \<Rightarrow> ustring list" where
  "kept_lines content = filter (\<lambda>line. \<not> startswith line (u ''---'')) (clean_lines content)"



text \<open>
  \<open>marker_line_from True s\<close>: some line of \<open>s\<close> begins with three dashes, that is, three
  dashes stand at the start of \<open>s\<close> or right after a line boundary. With \<open>False\<close> the
  start of \<open>s\<close> does not count as the start of a line.
\<close>

fun marker_line_from :: "bool \<Rightarrow> ustring \<Rightarrow> bool" where
  "marker_line_from at_start [] = False"
| "marker_line_from at_start (c # cs) =
     ((at_start \<and> prefix (u ''---'') (c # cs)) \<or> marker_line_from (is_linebreak c) cs)"

text \<open>A string that is not empty and has no whitespace at either end.\<close>

definition tidy :: "ustring \<Rightarrow> bool" where
  "tidy s = (s \<noteq> [] \<and> \<not> is_space (hd s) \<and> \<not> is_space (last s))"

section \<open>Worlds and inputs to run the program on\<close>

text \<open>A Unicode database with no cased character beyond ASCII.\<close>

definition ascii_ucd :: ucd where
  "ascii_ucd = \<lparr>cp_lower = (\<lambda>c. False), cp_upper = (\<lambda>c. False), cp_title = (\<lambda>c. False)\<rparr>"

text \<open>A browser whose only cookie is a language preference.\<close>

definition w_save :: world where
  "w_save =
     \<lparr>unicode = ascii_ucd,
      answer = (\<lambda>h c. case c of
          GetCookies d \<Rightarrow> RCookies [[(''name'', PStr ''lang''), (''value'', PStr ''en'')]]
        | _ \<Rightarrow> RUnit),
      clock_timestamp = (\<lambda>h. 0),
      clock_strftime = (\<lambda>h. ''20240101_000000'')\<rparr>"

text \<open>
  A credential file with two cookies, read at time 1800000000: the first expired at
  1700000000, the second expires at 1900000000.
\<close>

definition w_load :: world where
  "w_load =
     \<lparr>unicode = ascii_ucd,
      answer = (\<lambda>h c. case c of
          PathExists f \<Rightarrow> RBool True
        | PickleLoad f \<Rightarrow> RCookies
            [[(''name'', PStr ''li_at''), (''value'', PStr ''old''),
              (''expiry'', PInt 1700000000)],
             [(''name'', PStr ''JSESSIONID''), (''value'', PStr ''ajax''),
              (''domain'', PStr ''.linkedin.com''), (''expiry'', PInt 1900000000)]]
        | _ \<Rightarrow> RUnit),
      clock_timestamp = (\<lambda>h. 1800000000),
      clock_strftime = (\<lambda>h. ''20270115_080000'')\<rparr>"

text \<open>A machine with no credential file; the browser stays on the home page.\<close>

definition w_fresh :: world where
  "w_fresh = \<lparr>unicode = ascii_ucd,
     answer = (\<lambda>h c. case c of PathExists f \<Rightarrow> RBool False | CurrentUrl d \<Rightarrow> RStr ''https://www.linkedin.com/'' | _ \<Rightarrow> RUnit),
     clock_timestamp = (\<lambda>h. 1800000000), clock_strftime = (\<lambda>h. ''20270115_080000'')\<rparr>"

text \<open>
  A credential file whose only cookie expired at 1700000000, read at 1800000000. The
  browser stays on the home page, and every element asked for is found.
\<close>

definition w_stale :: world where
  "w_stale = \<lparr>unicode = ascii_ucd,
     answer = (\<lambda>h c. case c of
        PathExists f \<Rightarrow> RBool True
      | PickleLoad f \<Rightarrow> RCookies [[(''name'', PStr ''li_at''), (''value'', PStr ''old''), (''expiry'', PInt 1700000000)]]
      | CurrentUrl d \<Rightarrow> RStr ''https://www.linkedin.com/''
      | FindElement d l s \<Rightarrow> RElem 7
      | _ \<Rightarrow> RUnit),
     clock_timestamp = (\<lambda>h. 1800000000), clock_strftime = (\<lambda>h. ''20270115_080000'')\<rparr>"

text \<open>A poster with both credentials configured.\<close>

definition poster_with_credentials :: poster where
  "poster_with_credentials = init_poster (Some (u ''ada@example.org'')) (Some (u ''secret''))"

text \<open>A machine where Chrome starts but no page loads.\<close>

definition w_login_fails :: world where
  "w_login_fails = \<lparr>unicode = ascii_ucd,
     answer = (\<lambda>h c. case c of
         InstallChromeDriver \<Rightarrow> RStr ''/usr/bin/chromedriver''
       | NewChrome os \<Rightarrow> RDriver 1
       | Get d url \<Rightarrow> Raises ''net::ERR_INTERNET_DISCONNECTED''
       | CurrentUrl d \<Rightarrow> RStr ''about:blank''
       | _ \<Rightarrow> RUnit),
     clock_timestamp = (\<lambda>h. 1800000000), clock_strftime = (\<lambda>h. ''20270115_080000'')\<rparr>"

text \<open>A machine where Chrome starts and then refuses the command of line 42.\<close>

definition w_cdp_fails :: world where
  "w_cdp_fails = \<lparr>unicode = ascii_ucd,
     answer = (\<lambda>h c. case c of
         InstallChromeDriver \<Rightarrow> RStr ''/usr/bin/chromedriver''
       | NewChrome os \<Rightarrow> RDriver 1
       | ExecuteCdpCmd d cmd \<Rightarrow> Raises ''unknown command''
       | _ \<Rightarrow> RUnit),
     clock_timestamp = (\<lambda>h. 1800000000), clock_strftime = (\<lambda>h. ''20270115_080000'')\<rparr>"

text \<open>A feed page on which no element is ever found.\<close>

definition w_no_button :: world where
  "w_no_button = \<lparr>unicode = ascii_ucd,
     answer = (\<lambda>h c. case c of
         FindElement d l s \<Rightarrow> Raises ''no such element''
       | CurrentUrl d \<Rightarrow> RStr ''https://www.linkedin.com/feed/''
       | PageSource d \<Rightarrow> RStr ''<html></html>''
       | SaveScreenshot d n \<Rightarrow> RBool True
       | _ \<Rightarrow> RUnit),
     clock_timestamp = (\<lambda>h. 1800000000), clock_strftime = (\<lambda>h. ''20270115_080000'')\<rparr>"

text \<open>
  A feed page on which the composer works and the post is submitted, but every probe for
  a sign of success (a wait of five seconds) times out.
\<close>

definition w_unverified :: world where
  "w_unverified = \<lparr>unicode = ascii_ucd,
     answer = (\<lambda>h c. case c of
         FindElement d l s \<Rightarrow> RElem 1
       | WaitPresence d n l s \<Rightarrow> (if n = 5 then Raises ''timeout'' else RElem 2)
       | WaitClickable d n l s \<Rightarrow> RElem 3
       | _ \<Rightarrow> RUnit),
     clock_timestamp = (\<lambda>h. 1800000000), clock_strftime = (\<lambda>h. ''20270115_080000'')\<rparr>"

section \<open>Properties of the formatter\<close>

lemmas string_defs =
  u_def is_linebreak_def is_space_def strip_def startswith_def endswith_def nl_def
  suffix_to_prefix

lemmas format_defs =
  format_post_def clean_lines_def flush_def hashtag_step_def is_header_def is_bullet_def
  header_indicators_def bullet_glyph_def isupper_def islower_cp_def isupper_cp_def
  istitle_cp_def

text \<open>
  Claim C7, as amended. For the input \<open>Breaking News: X\<close>, blank line, \<open>foo\<close>, \<open>bar\<close>, blank
  line, \<open>#A #B\<close>, the loop builds the three sections \<open>Breaking News: X\<close>, \<open>foo bar\<close> (two
  lines) and \<open>#A #B\<close>, and \<open>format_post\<close> returns the four lines \<open>Breaking News: X\<close>,
  \<open>foo\<close>, \<open>bar\<close>, \<open>#A #B\<close>: the header is a section of its own and the last line is
  \<open>#A #B\<close>, whatever the Unicode tables are.
\<close>

theorem format_post_breaking_news:
  "format_lines db 0 (clean_lines (u ''Breaking News: X\<newline>\<newline>foo\<newline>bar\<newline>\<newline>#A #B'')) [] []
     = ([u ''Breaking News: X'', u ''foo\<newline>bar'', u ''#A #B''], [])
   \<and> format_post db (u ''Breaking News: X\<newline>\<newline>foo\<newline>bar\<newline>\<newline>#A #B'')
     = u ''Breaking News: X\<newline>foo\<newline>bar\<newline>#A #B''
   \<and> splitlines (format_post db (u ''Breaking News: X\<newline>\<newline>foo\<newline>bar\<newline>\<newline>#A #B''))
     = [u ''Breaking News: X'', u ''foo'', u ''bar'', u ''#A #B'']"
  by (simp add: format_defs string_defs)

text \<open>
  Claim C7 as stated also says that the hashtag line ends up last wherever it stood. It
  does not: with the same lines and \<open>#A #B\<close> first, the output keeps it first and the last
  line is \<open>bar\<close>.
\<close>

theorem format_post_hashtag_first_stays_first:
  "format_post ascii_ucd (u ''#A #B\<newline>\<newline>Breaking News: X\<newline>\<newline>foo\<newline>bar'')
     = u ''#A #B\<newline>Breaking News: X\<newline>foo\<newline>bar''
   \<and> last (splitlines (format_post ascii_ucd (u ''#A #B\<newline>\<newline>Breaking News: X\<newline>\<newline>foo\<newline>bar'')))
     \<noteq> u ''#A #B''"
  by (simp add: format_defs string_defs ascii_ucd_def)

section \<open>Rules for the events of a computation\<close>

lemma emitsI: "(\<And>t. \<exists>evs. snd (m t) = t @ evs \<and> list_all P evs) \<Longrightarrow> emits P m"
  by (simp add: emits_def)

lemma emitsD: "emits P m \<Longrightarrow> \<exists>evs. snd (m t) = t @ evs \<and> list_all P evs"
  by (simp add: emits_def)

lemma emits_new_events: "emits P m \<Longrightarrow> snd (m t) = t @ new_events m t \<and> list_all P (new_events m t)"
  by (auto simp: emits_def new_events_def dest!: spec[where x=t])

lemma emits_ret: "emits P (ret x)"
  by (simp add: emits_def ret_def)

lemma emits_raise: "emits P (raise e)"
  by (simp add: emits_def raise_def)

lemma emits_lift: "emits P (lift r)"
  by (simp add: emits_def lift_def)

lemma emits_bindp: 
  assumes "emits P m" and "\<And>x. emits P (f x)"
  shows "emits P (bindp m f)"
proof (rule emitsI)
  fix t
  obtain evs where m: "snd (m t) = t @ evs" "list_all P evs" using emitsD[OF assms(1)] by blast
  show "\<exists>evs. snd (bindp m f t) = t @ evs \<and> list_all P evs"
  proof (cases "fst (m t)")
    case (Inl e)
    then show ?thesis using m by (cases "m t") (auto simp: bindp_def)
  next
    case (Inr x)
    obtain evs' where "snd (f x (t @ evs)) = (t @ evs) @ evs'" "list_all P evs'"
      using emitsD[OF assms(2)] by blast
    then show ?thesis using m Inr by (cases "m t") (auto simp: bindp_def intro!: exI[where x="evs @ evs'"])
  qed
qed

lemma emits_seq: "emits P m \<Longrightarrow> emits P k \<Longrightarrow> emits P (seq m k)"
  by (simp add: seq_def emits_bindp)

lemma emits_try_except:
  assumes "emits P m" and "\<And>e. emits P (h e)"
  shows "emits P (try_except m h)"
proof (rule emitsI)
  fix t
  obtain evs where m: "snd (m t) = t @ evs" "list_all P evs" using emitsD[OF assms(1)] by blast
  show "\<exists>evs. snd (try_except m h t) = t @ evs \<and> list_all P evs"
  proof (cases "fst (m t)")
    case (Inr x)
    then show ?thesis using m by (cases "m t") (auto simp: try_except_def)
  next
    case (Inl e)
    obtain evs' where "snd (h e (t @ evs)) = (t @ evs) @ evs'" "list_all P evs'"
      using emitsD[OF assms(2)] by blast
    then show ?thesis using m Inl by (cases "m t") (auto simp: try_except_def intro!: exI[where x="evs @ evs'"])
  qed
qed

lemma emits_perform: "P c \<Longrightarrow> emits P (perform w c)"
  by (simp add: emits_def perform_def)
lemma emits_ask_bool: "P c \<Longrightarrow> emits P (ask_bool w c)"
  by (simp add: emits_def ask_bool_def)
lemma emits_ask_str: "P c \<Longrightarrow> emits P (ask_str w c)"
  by (simp add: emits_def ask_str_def)
lemma emits_ask_text: "P c \<Longrightarrow> emits P (ask_text w c)"
  by (simp add: emits_def ask_text_def)
lemma emits_ask_names: "P c \<Longrightarrow> emits P (ask_names w c)"
  by (simp add: emits_def ask_names_def)
lemma emits_ask_elem: "P c \<Longrightarrow> emits P (ask_elem w c)"
  by (simp add: emits_def ask_elem_def)
lemma emits_ask_driver: "P c \<Longrightarrow> emits P (ask_driver w c)"
  by (simp add: emits_def ask_driver_def)
lemma emits_ask_cookies: "P c \<Longrightarrow> emits P (ask_cookies w c)"
  by (simp add: emits_def ask_cookies_def)
lemma emits_now_timestamp: "P NowTimestamp \<Longrightarrow> emits P (now_timestamp w)"
  by (simp add: emits_def now_timestamp_def)
lemma emits_now_strftime: "P NowStrftime \<Longrightarrow> emits P (now_strftime w)"
  by (simp add: emits_def now_strftime_def)
lemma emits_sleep: "P (Sleep n) \<Longrightarrow> emits P (sleep n)"
  by (simp add: emits_def sleep_def)
lemma emits_print: "P (Print ps) \<Longrightarrow> emits P (print ps)"
  by (simp add: emits_def print_def)
lemma emits_say: "P (Print [Lit s]) \<Longrightarrow> emits P (say s)"
  by (simp add: say_def emits_print)
lemma emits_if: "emits P a \<Longrightarrow> emits P b \<Longrightarrow> emits P (if c then a else b)"
  by simp
lemma emits_case_option: "emits P a \<Longrightarrow> (\<And>x. emits P (b x)) \<Longrightarrow> emits P (case r of None \<Rightarrow> a | Some x \<Rightarrow> b x)"
  by (cases r) simp_all
lemma emits_case_prod: "(\<And>x y. emits P (f x y)) \<Longrightarrow> emits P (case r of (x, y) \<Rightarrow> f x y)"
  by (cases r) simp
lemma emits_case_list: "emits P a \<Longrightarrow> (\<And>x xs. emits P (b x xs)) \<Longrightarrow> emits P (case r of [] \<Rightarrow> a | x # xs \<Rightarrow> b x xs)"
  by (cases r) simp_all
lemma emits_let: "(\<And>x. emits P (f x)) \<Longrightarrow> emits P (let x = v in f x)"
  by simp

lemmas emits_rules = emits_ret emits_raise emits_lift emits_bindp emits_seq emits_try_except
  emits_perform emits_ask_bool emits_ask_str emits_ask_text emits_ask_names emits_ask_elem emits_ask_driver
  emits_ask_cookies emits_now_timestamp emits_now_strftime emits_sleep emits_print emits_say emits_if
  emits_case_option emits_case_prod emits_case_list emits_let

lemma emits_weaken: "emits P m \<Longrightarrow> (\<And>c. P c \<Longrightarrow> Q c) \<Longrightarrow> emits Q m"
  unfolding emits_def by (metis (mono_tags, lifting) list.pred_mono_strong)

lemma emits_add_cookies: 
  assumes "\<And>c. c \<in> set vs \<Longrightarrow> P (AddCookie driver c)" "\<And>ps. P (Print ps)"
  shows "emits P (add_cookies w driver vs)"
  using assms by (induction vs) (auto intro!: emits_rules)

section \<open>The credential store\<close>

lemmas prog_defs = ret_def raise_def lift_def bindp_def seq_def try_except_def try_finally_def
  perform_def ask_bool_def ask_str_def ask_text_def ask_names_def ask_elem_def ask_driver_def
  ask_cookies_def
  now_timestamp_def now_strftime_def sleep_def print_def say_def

lemma any_essential_without:
  "\<not> list_ex essential cookies \<Longrightarrow>
     any_essential cookies = Inr False \<or> (\<exists>k. any_essential cookies = Inl (KeyError k))"
  by (induction cookies)
     (auto simp: essential_def name_is_essential_def list_ex_iff split: option.splits)

text \<open>
  Claim C6. When the browser hands \<open>save_cookies\<close> a set of cookies none of which has an
  essential name (\<open>li_at\<close>, \<open>JSESSIONID\<close>), it returns \<open>False\<close> and none of its events opens
  or writes a file; so it saves only when an essential name is present. A cookie with no
  name at all makes the test raise \<open>KeyError\<close>, which ends the same way.
\<close>

theorem save_cookies_needs_essential:
  assumes "answer w (t @ [Sleep 3000]) (GetCookies driver) = RCookies cookies"
      and "\<not> list_ex essential cookies"
  shows "fst (save_cookies w self driver t) = Inr False
         \<and> \<not> list_ex is_file_write (new_events (save_cookies w self driver) t)"
  using any_essential_without[OF assms(2)] assms(1)
  by (auto simp: save_cookies_def prog_defs new_events_def is_file_write_def)

theorem save_cookies_needs_essential_witness:
  "answer w_save ([] @ [Sleep 3000]) (GetCookies 0) = RCookies [[(''name'', PStr ''lang''), (''value'', PStr ''en'')]]
   \<and> \<not> list_ex essential [[(''name'', PStr ''lang''), (''value'', PStr ''en'')]]
   \<and> fst (save_cookies w_save (init_poster None None) 0 []) = Inr False
   \<and> \<not> list_ex is_file_write (new_events (save_cookies w_save (init_poster None None) 0) [])"
proof -
  have a: "answer w_save ([] @ [Sleep 3000]) (GetCookies 0) = RCookies [[(''name'', PStr ''lang''), (''value'', PStr ''en'')]]"
    by (simp add: w_save_def)
  have b: "\<not> list_ex essential [[(''name'', PStr ''lang''), (''value'', PStr ''en'')]]"
    by (simp add: essential_def essential_cookies_def)
  show ?thesis using a b save_cookies_needs_essential[OF a b, of "init_poster None None"] by simp
qed

lemma map_of_pop: "map_of (pop k c) k' = (if k' = k then None else map_of c k')"
  by (induction c) (auto simp: pop_def)

lemma strip_attributes_removed:
  "map_of (strip_attributes c) ''expiry'' = None"
  "map_of (strip_attributes c) ''expires'' = None"
  "map_of (strip_attributes c) ''domain'' = None"
  by (simp_all add: strip_attributes_def map_of_pop)

lemma valid_cookies_sound:
  "valid_cookies now cs = Inr vs \<Longrightarrow> c' \<in> set vs \<Longrightarrow>
     \<exists>c\<in>set cs. c' = strip_attributes c \<and> \<not> expired now c"
proof (induction cs arbitrary: vs)
  case Nil
  then show ?case by simp
next
  case (Cons c cs)
  then show ?case
    by (auto simp: expired_def split: option.splits sum.splits bool.splits if_splits)
qed

lemma add_cookies_returns: "fst (add_cookies w driver vs t) = Inr ()"
  by (induction vs arbitrary: t) (auto simp: prog_defs split: reply.splits)

lemma add_cookies_events:
  "\<exists>evs. add_cookies w driver vs t = (Inr (), t @ evs)
         \<and> list_all (\<lambda>c. \<forall>x y. c = AddCookie x y \<longrightarrow> x = driver \<and> y \<in> set vs) evs"
proof -
  have "emits (\<lambda>c. \<forall>x y. c = AddCookie x y \<longrightarrow> x = driver \<and> y \<in> set vs) (add_cookies w driver vs)"
    by (rule emits_add_cookies) auto
  from emitsD[OF this, of t] add_cookies_returns[of w driver vs t] show ?thesis
    by (cases "add_cookies w driver vs t") auto
qed

lemma load_cookies_events:
  "\<exists>evs. snd (load_cookies w self driver t) = t @ evs
     \<and> list_all (\<lambda>c. \<forall>x y. c = AddCookie x y \<longrightarrow> x = driver
           \<and> (\<exists>vs. valid_cookies (time_of_load w self t) (stored_cookies w self t) = Inr vs
                    \<and> y \<in> set vs)) evs"
proof -
  let ?f = "cookies_file self"
  let ?vs = "valid_cookies (time_of_load w self t) (stored_cookies w self t)"
  show ?thesis
  proof (cases "answer w t (PathExists ?f) = RBool True
       \<and> (\<forall>m. answer w (t @ [PathExists ?f]) (OpenRead ?f) \<noteq> Raises m)
       \<and> (\<exists>cs. answer w (t @ [PathExists ?f, OpenRead ?f]) (PickleLoad ?f) = RCookies cs)
       \<and> (\<exists>vs. ?vs = Inr vs \<and> vs \<noteq> [])")
    case True
    then obtain cs vs where cs: "answer w (t @ [PathExists ?f, OpenRead ?f]) (PickleLoad ?f) = RCookies cs"
      and vs: "?vs = Inr vs" "vs \<noteq> []" by blast
    have st: "stored_cookies w self t = cs" using cs by (simp add: stored_cookies_def)
    obtain evs where evs: "add_cookies w driver vs (t @ [PathExists ?f, OpenRead ?f, PickleLoad ?f, NowTimestamp]) = (Inr (), (t @ [PathExists ?f, OpenRead ?f, PickleLoad ?f, NowTimestamp]) @ evs)"
      "list_all (\<lambda>c. \<forall>x y. c = AddCookie x y \<longrightarrow> x = driver \<and> y \<in> set vs) evs"
      using add_cookies_events by blast
    have run: "snd (load_cookies w self driver t) = t @ [PathExists ?f, OpenRead ?f, PickleLoad ?f, NowTimestamp] @ evs @ [Print [Lit ''Cookies loaded successfully!'']]"
      using True cs vs st evs(1)
      by (auto simp: load_cookies_def prog_defs time_of_load_def split: reply.splits sum.splits prod.splits)
    show ?thesis unfolding run using evs(2) vs
      by (auto simp: list_all_iff)
  next
    case False
    then have "\<exists>evs. snd (load_cookies w self driver t) = t @ evs \<and> list_all (\<lambda>c. \<forall>x y. c \<noteq> AddCookie x y) evs"
      by (auto simp: load_cookies_def prog_defs time_of_load_def stored_cookies_def split: reply.splits sum.splits)
    then show ?thesis by (auto simp: list_all_iff)
  qed
qed

text \<open>
  Claim C1. Every cookie \<open>load_cookies\<close> hands to the browser goes to the driver it was
  given, comes from a stored cookie whose expiry is not at or before the time the function
  read from the clock, and is that cookie without its \<open>expiry\<close> and \<open>domain\<close>.
\<close>

theorem load_cookies_only_unexpired:
  assumes "AddCookie d' c' \<in> set (new_events (load_cookies w self driver) t)"
  shows "d' = driver \<and> map_of c' ''expiry'' = None \<and> map_of c' ''domain'' = None
         \<and> (\<exists>c \<in> set (stored_cookies w self t).
               c' = strip_attributes c \<and> \<not> expired (time_of_load w self t) c)"
proof -
  obtain evs where evs: "snd (load_cookies w self driver t) = t @ evs"
     "list_all (\<lambda>c. \<forall>x y. c = AddCookie x y \<longrightarrow> x = driver
           \<and> (\<exists>vs. valid_cookies (time_of_load w self t) (stored_cookies w self t) = Inr vs
                    \<and> y \<in> set vs)) evs"
    using load_cookies_events by blast
  have "new_events (load_cookies w self driver) t = evs"
    by (simp add: new_events_def evs(1))
  with assms have mem: "AddCookie d' c' \<in> set evs" by simp
  have "d' = driver \<and> (\<exists>vs. valid_cookies (time_of_load w self t) (stored_cookies w self t) = Inr vs
                    \<and> c' \<in> set vs)"
    using evs(2) mem unfolding list_all_iff by blast
  then obtain vs where d: "d' = driver"
    and vs: "valid_cookies (time_of_load w self t) (stored_cookies w self t) = Inr vs" "c' \<in> set vs"
    by blast
  from valid_cookies_sound[OF vs] obtain c where c: "c \<in> set (stored_cookies w self t)"
    "c' = strip_attributes c" "\<not> expired (time_of_load w self t) c" by blast
  show ?thesis using d c by (auto simp: strip_attributes_removed)
qed


theorem load_cookies_only_unexpired_witness:
  "AddCookie 0 [(''name'', PStr ''JSESSIONID''), (''value'', PStr ''ajax'')]
      \<in> set (new_events (load_cookies w_load (init_poster None None) 0) [])
   \<and> map_of [(''name'', PStr ''JSESSIONID''), (''value'', PStr ''ajax'')] ''expiry'' = None
   \<and> (\<exists>c \<in> set (stored_cookies w_load (init_poster None None) []).
         [(''name'', PStr ''JSESSIONID''), (''value'', PStr ''ajax'')] = strip_attributes c
         \<and> \<not> expired (time_of_load w_load (init_poster None None) []) c)"
proof -
  have a: "AddCookie 0 [(''name'', PStr ''JSESSIONID''), (''value'', PStr ''ajax'')]
      \<in> set (new_events (load_cookies w_load (init_poster None None) 0) [])"
    by (simp add: new_events_def load_cookies_def prog_defs w_load_def init_poster_def le_time_def strip_attributes_def pop_def)
  show ?thesis using a load_cookies_only_unexpired[OF a] by simp
qed

section \<open>Logging in: what the code does\<close>

lemmas kind_defs = is_quit_def is_add_cookie_def harmless_def is_file_write_def reads_address_def

lemma emits_on_login_error: "emits (reads_address driver) (on_login_error w driver e)"
  unfolding on_login_error_def by (intro emits_rules; simp add: kind_defs)

lemma on_login_error_result:
  "fst (on_login_error w driver e t) = Inr False \<or> (\<exists>m. fst (on_login_error w driver e t) = Inl (External m))"
  by (auto simp: on_login_error_def prog_defs ill_typed_def split: reply.splits)

lemma login_missing_run:
  assumes "cookie_login w self driver t = (Inr None, t1)"
      and "missing (email self) \<or> missing (password self)"
  shows "login_to_linkedin w self driver t = on_login_error w driver credentials_error t1"
  using assms by (simp add: login_to_linkedin_def manual_login_def bindp_def try_except_def raise_def)

lemma on_login_error_readable:
  "address_readable w driver e t \<Longrightarrow> fst (on_login_error w driver e t) = Inr False"
  by (auto simp: address_readable_def on_login_error_def prog_defs split: reply.splits)

lemma on_login_error_unreadable:
  "\<not> address_readable w driver e t \<Longrightarrow> \<exists>m. fst (on_login_error w driver e t) = Inl (External m)"
  by (auto simp: address_readable_def on_login_error_def prog_defs ill_typed_def split: reply.splits)

text \<open>
  Claim C3, as amended. When \<open>login_to_linkedin\<close> reaches the manual login and the email or
  the password is missing, the \<open>ValueError\<close> it raises is caught by its own handler: the run
  is that of the handler, started where the cookie attempt ended, and the \<open>ValueError\<close>
  never reaches the caller. The handler prints and reads the address of the browser,
  nothing else, so the login page is not opened and nothing is typed or retried. When the
  browser gives its address the function returns \<open>False\<close>; when it does not, what reaches
  the caller is the exception of the browser.
\<close>

theorem login_without_credentials_returns_false:
  assumes "cookie_login w self driver t = (Inr None, t1)"
      and "missing (email self) \<or> missing (password self)"
  shows "login_to_linkedin w self driver t = on_login_error w driver credentials_error t1
         \<and> fst (login_to_linkedin w self driver t) \<noteq> Inl credentials_error
         \<and> list_all (reads_address driver) (new_events (on_login_error w driver credentials_error) t1)
         \<and> (address_readable w driver credentials_error t1
              \<longrightarrow> fst (login_to_linkedin w self driver t) = Inr False)
         \<and> (\<not> address_readable w driver credentials_error t1
              \<longrightarrow> (\<exists>m. fst (login_to_linkedin w self driver t) = Inl (External m)))"
proof -
  note run = login_missing_run[OF assms]
  have res: "fst (on_login_error w driver credentials_error t1) = Inr False
       \<or> (\<exists>m. fst (on_login_error w driver credentials_error t1) = Inl (External m))"
    by (rule on_login_error_result)
  have ne: "fst (on_login_error w driver credentials_error t1) \<noteq> Inl credentials_error"
    using res by (auto simp: credentials_error_def)
  have ev: "list_all (reads_address driver) (new_events (on_login_error w driver credentials_error) t1)"
    using emits_new_events[OF emits_on_login_error] by blast
  show ?thesis
    using run ne ev on_login_error_readable[of w driver credentials_error t1]
      on_login_error_unreadable[of w driver credentials_error t1]
    by simp
qed

lemma w_fresh_cookie_login:
  "cookie_login w_fresh (init_poster None (Some (u ''secret''))) 0 []
     = (Inr None, [Get 0 home_url, Sleep 5000, PathExists ''linkedin_cookies.pkl''])"
  by (simp add: cookie_login_def prog_defs w_fresh_def init_poster_def)

lemma w_fresh_missing_email: "missing (email (init_poster None (Some (u ''secret''))))"
  by (simp add: missing_def init_poster_def)

lemma w_fresh_missing:
  "missing (email (init_poster None (Some (u ''secret''))))
     \<or> missing (password (init_poster None (Some (u ''secret''))))"
  by (simp add: w_fresh_missing_email)

lemma w_fresh_handler:
  "fst (on_login_error w_fresh 0 credentials_error t) = Inr False"
  by (simp add: on_login_error_def prog_defs w_fresh_def login_url_def)

text \<open>
  Claim C3 as stated says the \<open>ValueError\<close> propagates to the caller. On a machine with no
  credential file and no email configured, \<open>login_to_linkedin\<close> returns \<open>False\<close> instead.
\<close>

theorem login_without_email_returns_false:
  "missing (email (init_poster None (Some (u ''secret''))))
   \<and> cookie_login w_fresh (init_poster None (Some (u ''secret''))) 0 []
       = (Inr None, [Get 0 home_url, Sleep 5000, PathExists ''linkedin_cookies.pkl''])
   \<and> fst (login_to_linkedin w_fresh (init_poster None (Some (u ''secret''))) 0 []) = Inr False"
  using login_missing_run[OF w_fresh_cookie_login w_fresh_missing] w_fresh_cookie_login
    w_fresh_handler w_fresh_missing_email
  by simp

lemma w_fresh_address_readable:
  "address_readable w_fresh 0 credentials_error
     [Get 0 home_url, Sleep 5000, PathExists ''linkedin_cookies.pkl'']"
  by (simp add: address_readable_def w_fresh_def)

theorem login_without_credentials_witness:
  "cookie_login w_fresh (init_poster None (Some (u ''secret''))) 0 []
       = (Inr None, [Get 0 home_url, Sleep 5000, PathExists ''linkedin_cookies.pkl''])
   \<and> missing (email (init_poster None (Some (u ''secret''))))
   \<and> address_readable w_fresh 0 credentials_error
        [Get 0 home_url, Sleep 5000, PathExists ''linkedin_cookies.pkl'']
   \<and> fst (login_to_linkedin w_fresh (init_poster None (Some (u ''secret''))) 0 []) = Inr False
   \<and> fst (login_to_linkedin w_fresh (init_poster None (Some (u ''secret''))) 0 []) \<noteq> Inl credentials_error"
  using login_without_credentials_returns_false[OF w_fresh_cookie_login w_fresh_missing]
    w_fresh_cookie_login w_fresh_missing_email w_fresh_address_readable
  by blast

lemma emits_login_indicator_loop_harmless:
  "emits harmless (login_indicator_loop w driver sels)"
  by (induction sels) (auto intro!: emits_rules simp: kind_defs)

lemma emits_check_login_status: "emits harmless (check_login_status w driver)"
  unfolding check_login_status_def
  by (intro emits_rules emits_login_indicator_loop_harmless; simp add: kind_defs)

lemma emits_save_cookies_harmless: "emits harmless (save_cookies w self driver)"
  unfolding save_cookies_def by (intro emits_rules; simp add: kind_defs)

lemma emits_manual_login: "emits harmless (manual_login w self driver)"
  unfolding manual_login_def
  by (intro emits_rules emits_check_login_status emits_save_cookies_harmless; simp add: kind_defs)

lemma emits_on_login_error_harmless: "emits harmless (on_login_error w driver e)"
  by (rule emits_weaken[OF emits_on_login_error]) (auto simp: kind_defs split: call.splits)

lemma valid_cookies_all_expired:
  "list_all (expired now) cookies \<Longrightarrow> valid_cookies now cookies = Inr []"
  by (induction cookies) (auto simp: expired_def split: option.splits)

lemma load_cookies_all_expired:
  assumes "only_expired_stored w self t"
  shows "load_cookies w self driver t
           = (Inr False, t @ [PathExists (cookies_file self), OpenRead (cookies_file self),
                PickleLoad (cookies_file self), NowTimestamp, Print [Lit ''No valid cookies found'']])"
  using assms
  by (auto simp: only_expired_stored_def raises_def load_cookies_def prog_defs time_of_load_def
        valid_cookies_all_expired split: reply.splits)

lemma cookie_login_stale:
  assumes "stale_store w self driver t"
  shows "cookie_login w self driver t = (Inr None, t @ after_stale_load self driver)"
proof -
  from assms have a: "\<not> raises (answer w t (Get driver home_url))"
    and b: "answer w (t @ [Get driver home_url, Sleep 5000]) (PathExists (cookies_file self)) = RBool True"
    and c: "only_expired_stored w self (t @ before_load self driver)"
    by (simp_all add: stale_store_def)
  have l: "load_cookies w self driver (t @ [Get driver home_url, Sleep 5000, PathExists (cookies_file self),
      Print [Lit ''Found existing cookies, attempting to use them...'']])
     = (Inr False, t @ after_stale_load self driver)"
    using load_cookies_all_expired[OF c, of driver] by (simp add: before_load_def after_stale_load_def)
  show ?thesis using a b l
    by (auto simp: cookie_login_def raises_def prog_defs split: reply.splits)
qed

lemma seq_say_run: "seq (say s) k t = k (t @ [Print [Lit s]])"
  by (simp add: prog_defs)

lemma seq_sleep_run: "seq (sleep n) k t = k (t @ [Sleep n])"
  by (simp add: prog_defs)

lemma seq_perform_run: "\<not> raises (answer w t c) \<Longrightarrow> seq (perform w c) k t = k (t @ [c])"
  by (simp add: prog_defs raises_def split: reply.splits)

lemma bindp_ask_elem_run: "answer w t c = RElem x \<Longrightarrow> bindp (ask_elem w c) f t = f x (t @ [c])"
  by (simp add: prog_defs)

lemma emits_prefix: "emits P m \<Longrightarrow> prefix t (snd (m t))"
  by (auto simp: emits_def prefix_def dest!: spec[where x=t])

lemma seq_perform_prefix:
  assumes "emits P k" and "p = t @ [c]"
  shows "prefix p (snd (seq (perform w c) k t))"
proof (cases "raises (answer w t c)")
  case True
  then show ?thesis using assms(2) by (auto simp: prog_defs raises_def split: reply.splits)
next
  case False
  then show ?thesis using emits_prefix[OF assms(1), of "t @ [c]"] assms(2) by (simp add: seq_perform_run)
qed

lemma try_except_prefix:
  assumes "\<And>e. emits P (h e)" and "prefix p (snd (m t))"
  shows "prefix p (snd (try_except m h t))"
proof (cases "m t")
  case (Pair r t1)
  show ?thesis
  proof (cases r)
    case (Inr x)
    then show ?thesis using assms(2) Pair by (simp add: try_except_def)
  next
    case (Inl e)
    have "prefix t1 (snd (h e t1))" by (rule emits_prefix[OF assms(1)])
    then show ?thesis using assms(2) Pair Inl by (auto simp: try_except_def)
  qed
qed

lemma manual_login_opens:
  assumes "\<not> missing (email self)" "\<not> missing (password self)"
  shows "prefix (t @ manual_login_opening driver) (snd (manual_login w self driver t))"
proof -
  have "prefix ((t @ [Print [Lit ''Performing manual login...'']]) @ [Get driver login_url])
          (snd (manual_login w self driver t))"
    unfolding manual_login_def using assms
    apply (simp only: if_False simp_thms seq_say_run)
    apply (rule seq_perform_prefix[where P = harmless])
     apply (intro emits_rules emits_check_login_status emits_save_cookies_harmless; simp add: kind_defs)
    apply simp
    done
  then show ?thesis by (simp add: manual_login_opening_def)
qed

lemma manual_login_types_email:
  assumes "\<not> missing (email self)" "\<not> missing (password self)"
      and "email_field_ready w driver email_field t"
  shows "prefix (t @ email_typed self driver email_field) (snd (manual_login w self driver t))"
proof -
  from assms(3) have a: "\<not> raises (answer w (t @ [Print [Lit ''Performing manual login...'']]) (Get driver login_url))"
    and b: "answer w (t @ [Print [Lit ''Performing manual login...''], Get driver login_url, Sleep 5000])
            (FindElement driver By_ID ''username'') = RElem email_field"
    and c: "\<not> raises (answer w (t @ [Print [Lit ''Performing manual login...''], Get driver login_url, Sleep 5000, FindElement driver By_ID ''username''])
                      (Clear email_field))"
    by (simp_all add: email_field_ready_def manual_login_opening_def)
  have "prefix ((t @ [Print [Lit ''Performing manual login...''], Get driver login_url, Sleep 5000, FindElement driver By_ID ''username'', Clear email_field, Sleep 1000]) @ [SendKeys email_field (the (email self))])
          (snd (manual_login w self driver t))"
    unfolding manual_login_def using assms(1,2)
    apply (simp only: if_False simp_thms seq_say_run)
    apply (simp only: seq_perform_run[OF a] append_assoc append.simps seq_sleep_run)
    apply (rule try_except_prefix[where P = harmless])
     apply (intro emits_rules; simp add: kind_defs)
    apply (simp only: bindp_ask_elem_run[OF b] append_assoc append.simps)
    apply (simp only: seq_perform_run[OF c] append_assoc append.simps seq_sleep_run)
    apply (rule seq_perform_prefix[where P = harmless])
     apply (intro emits_rules emits_check_login_status emits_save_cookies_harmless; simp add: kind_defs)
    apply simp
    done
  then show ?thesis by (simp add: email_typed_def manual_login_opening_def)
qed


lemma login_stale_run:
  assumes "stale_store w self driver t"
  shows "login_to_linkedin w self driver t
           = try_except (manual_login w self driver) (on_login_error w driver)
               (t @ after_stale_load self driver)"
  using cookie_login_stale[OF assms] by (simp add: login_to_linkedin_def bindp_def try_except_def)

lemma login_stale_no_cookie:
  assumes "stale_store w self driver t"
  shows "\<not> list_ex is_add_cookie (new_events (login_to_linkedin w self driver) t)"
proof -
  note run = login_stale_run[OF assms]
  have "emits harmless (try_except (manual_login w self driver) (on_login_error w driver))"
    by (intro emits_try_except emits_manual_login emits_on_login_error_harmless)
  from emitsD[OF this, of "t @ after_stale_load self driver"]
  obtain evs where evs: "snd (login_to_linkedin w self driver t) = (t @ after_stale_load self driver) @ evs"
      "list_all harmless evs"
    using run by auto
  have "new_events (login_to_linkedin w self driver) t = after_stale_load self driver @ evs"
    by (simp add: new_events_def evs(1))
  moreover have "\<not> list_ex is_add_cookie (after_stale_load self driver)"
    by (simp add: after_stale_load_def before_load_def is_add_cookie_def)
  moreover have "\<not> list_ex is_add_cookie evs"
    using evs(2) by (auto simp: list_all_iff list_ex_iff harmless_def)
  ultimately show ?thesis by (auto simp: list_ex_iff)
qed

text \<open>
  Claim C8. When the credential file exists and every record in it has expired when it is
  loaded, \<open>load_cookies\<close> returns \<open>False\<close> after reading the file and the clock; the
  cookie attempt ends there, with no cookie handed to the browser, no refresh and no login
  check, and no cookie is added in the rest of the login either. The function goes on
  with the manual login. With a credential missing that is the \<open>ValueError\<close> of line 176,
  which the handler receives. With both configured, the next events of the run are the
  announcement of the manual login and the opening of the login page; and when the page
  opens and the field for the email is found and cleared, the run goes on to type the
  email into it.
\<close>

theorem login_with_stale_cookies_goes_manual:
  assumes "stale_store w self driver t"
  shows "cookie_login w self driver t = (Inr None, t @ after_stale_load self driver)
         \<and> \<not> list_ex is_add_cookie (new_events (login_to_linkedin w self driver) t)
         \<and> (missing (email self) \<or> missing (password self) \<longrightarrow>
              login_to_linkedin w self driver t
                = on_login_error w driver credentials_error (t @ after_stale_load self driver))
         \<and> (\<not> missing (email self) \<and> \<not> missing (password self) \<longrightarrow>
              prefix (t @ after_stale_load self driver @ manual_login_opening driver)
                (snd (login_to_linkedin w self driver t))
              \<and> (\<forall>email_field.
                    email_field_ready w driver email_field (t @ after_stale_load self driver) \<longrightarrow>
                    prefix (t @ after_stale_load self driver @ email_typed self driver email_field)
                      (snd (login_to_linkedin w self driver t))))"
proof -
  note c = cookie_login_stale[OF assms]
  note run = login_stale_run[OF assms]
  note nc = login_stale_no_cookie[OF assms]
  have h: "\<And>e. emits harmless (on_login_error w driver e)"
    by (rule emits_on_login_error_harmless)
  have m: "missing (email self) \<or> missing (password self) \<Longrightarrow>
      login_to_linkedin w self driver t
        = on_login_error w driver credentials_error (t @ after_stale_load self driver)"
    by (rule login_missing_run[OF c])
  have o: "prefix (t @ after_stale_load self driver @ manual_login_opening driver)
                (snd (login_to_linkedin w self driver t))"
    if "\<not> missing (email self)" "\<not> missing (password self)"
  proof -
    have "prefix ((t @ after_stale_load self driver) @ manual_login_opening driver)
            (snd (manual_login w self driver (t @ after_stale_load self driver)))"
      by (rule manual_login_opens[OF that])
    then have "prefix ((t @ after_stale_load self driver) @ manual_login_opening driver)
            (snd (try_except (manual_login w self driver) (on_login_error w driver)
                    (t @ after_stale_load self driver)))"
      by (rule try_except_prefix[where P = harmless, OF h])
    then show ?thesis by (simp add: run)
  qed
  have e: "prefix (t @ after_stale_load self driver @ email_typed self driver email_field)
                (snd (login_to_linkedin w self driver t))"
    if "\<not> missing (email self)" "\<not> missing (password self)"
       "email_field_ready w driver email_field (t @ after_stale_load self driver)" for email_field
  proof -
    have "prefix ((t @ after_stale_load self driver) @ email_typed self driver email_field)
            (snd (manual_login w self driver (t @ after_stale_load self driver)))"
      by (rule manual_login_types_email[OF that])
    then have "prefix ((t @ after_stale_load self driver) @ email_typed self driver email_field)
            (snd (try_except (manual_login w self driver) (on_login_error w driver)
                    (t @ after_stale_load self driver)))"
      by (rule try_except_prefix[where P = harmless, OF h])
    then show ?thesis by (simp add: run)
  qed
  show ?thesis using c nc m o e by blast
qed

lemma poster_with_credentials_configured: "\<not> missing (email poster_with_credentials) \<and> \<not> missing (password poster_with_credentials)"
  by (simp add: poster_with_credentials_def init_poster_def missing_def u_def)

lemma w_stale_store: "stale_store w_stale poster_with_credentials 0 []"
  by (simp add: stale_store_def only_expired_stored_def raises_def w_stale_def poster_with_credentials_def init_poster_def
        before_load_def time_of_load_def expired_def le_time_def)

lemma w_stale_email_field: "email_field_ready w_stale 0 7 ([] @ after_stale_load poster_with_credentials 0)"
  by (simp add: email_field_ready_def raises_def w_stale_def)

theorem login_with_stale_cookies_witness:
  "stale_store w_stale poster_with_credentials 0 []
   \<and> \<not> missing (email poster_with_credentials) \<and> \<not> missing (password poster_with_credentials)
   \<and> email_field_ready w_stale 0 7 ([] @ after_stale_load poster_with_credentials 0)
   \<and> cookie_login w_stale poster_with_credentials 0 [] = (Inr None, [] @ after_stale_load poster_with_credentials 0)
   \<and> prefix ([] @ after_stale_load poster_with_credentials 0 @ email_typed poster_with_credentials 0 7)
        (snd (login_to_linkedin w_stale poster_with_credentials 0 []))
   \<and> \<not> list_ex is_add_cookie (new_events (login_to_linkedin w_stale poster_with_credentials 0) [])"
  using login_with_stale_cookies_goes_manual[OF w_stale_store] w_stale_store poster_with_credentials_configured
    w_stale_email_field
  by blast


section \<open>Publishing: what the code does\<close>

lemma emits_on_create_post_error: "emits (diagnostic driver) (on_create_post_error w driver e)"
  unfolding on_create_post_error_def by (intro emits_rules; simp add: diagnostic_def)

lemma on_create_post_error_result:
  "fst (on_create_post_error w driver e t) = Inr False
     \<or> (\<exists>m. fst (on_create_post_error w driver e t) = Inl (External m))"
  by (auto simp: on_create_post_error_def prog_defs ill_typed_def split: reply.splits)

lemma compose_without_button:
  assumes "open_composer w driver t = (Inr False, t2)"
  shows "\<exists>e. compose_and_submit w driver content t
             = (Inl e, t2 @ [NowStrftime, pre_post_screenshot w driver t2])"
  using assms
  by (auto simp: compose_and_submit_def pre_post_screenshot_def prog_defs split: reply.splits)

lemma create_post_without_button:
  assumes "open_composer w driver t = (Inr False, t2)"
  shows "\<exists>e. create_post w driver content t
             = on_create_post_error w driver e (t2 @ [NowStrftime, pre_post_screenshot w driver t2])"
proof -
  from compose_without_button[OF assms] obtain e where
    "compose_and_submit w driver content t = (Inl e, t2 @ [NowStrftime, pre_post_screenshot w driver t2])"
    by blast
  then show ?thesis by (auto simp: create_post_def seq_def bindp_def try_except_def)
qed

lemma failed_click_run:
  assumes "click_fails w driver how selector t"
  shows "try_except
           (bindp (ask_elem w (FindElement driver how selector)) (\<lambda>post_button.
            seq (perform w (ExecuteScript driver click_script [ArgElem post_button])) (ret True)))
           (\<lambda>e. seq (say message) (ret False)) t
         = (Inr False, after_click_fails w driver how selector message t)"
  using assms
  by (cases "answer w t (FindElement driver how selector)")
     (auto simp: click_fails_def after_click_fails_def raises_def prog_defs split: reply.splits)

lemma open_composer_no_way:
  assumes "no_way_opens_composer w driver t"
  shows "open_composer w driver t = (Inr False, composer_not_opened w driver t)"
proof -
  let ?t1 = "t @ [Get driver feed_url, Sleep 5000]"
  from assms have g: "\<not> raises (answer w t (Get driver feed_url))"
    and a: "click_fails w driver By_CSS_SELECTOR ''button[data-control-name='share.sharebox_focus']'' ?t1"
    and b: "click_fails w driver By_XPATH ''//button[contains(.,'Start a post')]''
            (after_click_fails w driver By_CSS_SELECTOR
               ''button[data-control-name='share.sharebox_focus']'' ''Approach 1 failed'' ?t1)"
    and c: "click_fails w driver By_XPATH
            ''//div[contains(@class, 'share-box-feed-entry__trigger')]''
            (after_click_fails w driver By_XPATH
               ''//button[contains(.,'Start a post')]'' ''Approach 2 failed''
               (after_click_fails w driver By_CSS_SELECTOR
                  ''button[data-control-name='share.sharebox_focus']'' ''Approach 1 failed'' ?t1))"
    by (simp_all add: no_way_opens_composer_def)
  have "click_post_button w driver ?t1 = (Inr False, composer_not_opened w driver t)"
    unfolding click_post_button_def composer_not_opened_def
    by (subst bindp_def, subst failed_click_run[OF a], simp,
        subst bindp_def, subst failed_click_run[OF b], simp,
        subst failed_click_run[OF c], simp)
  moreover have "open_composer w driver t = click_post_button w driver ?t1"
    using g by (auto simp: open_composer_def raises_def seq_def bindp_def perform_def sleep_def split: reply.splits)
  ultimately show ?thesis by simp
qed

text \<open>
  Claim C4. When none of the three ways finds and clicks the button that opens the
  composer, the next events are the reading of the clock and the screenshot call
  \<open>pre_post_error_...png\<close>; only then is the exception raised. Everything after that is
  the handler: prints, the address, a second screenshot, the page source. No call that
  looks for the editor, enters the content, submits or verifies is made. \<open>create_post\<close>
  returns \<open>False\<close>, or passes on an exception the browser raised when the handler asked
  for its address.
\<close>

theorem create_post_no_button_fails:
  assumes "no_way_opens_composer w driver t"
  shows "(fst (create_post w driver content t) = Inr False
          \<or> (\<exists>m. fst (create_post w driver content t) = Inl (External m)))
         \<and> (\<exists>evs. snd (create_post w driver content t)
                     = composer_not_opened w driver t
                       @ [NowStrftime, pre_post_screenshot w driver (composer_not_opened w driver t)]
                       @ evs
                   \<and> list_all (diagnostic driver) evs)"
proof -
  let ?t2 = "composer_not_opened w driver t"
  let ?t = "?t2 @ [NowStrftime, pre_post_screenshot w driver ?t2]"
  from create_post_without_button[OF open_composer_no_way[OF assms]] obtain e where
    run: "create_post w driver content t = on_create_post_error w driver e ?t" by blast
  from emitsD[OF emits_on_create_post_error]
  obtain evs where "snd (on_create_post_error w driver e ?t) = ?t @ evs" "list_all (diagnostic driver) evs"
    by blast
  then show ?thesis using run on_create_post_error_result[of w driver e ?t] by auto
qed

lemma w_no_button_no_way: "no_way_opens_composer w_no_button 0 []"
  by (simp add: no_way_opens_composer_def click_fails_def after_click_fails_def raises_def
        w_no_button_def)

theorem create_post_no_button_witness:
  "no_way_opens_composer w_no_button 0 []
   \<and> (fst (create_post w_no_button 0 (u ''Hello'') []) = Inr False
          \<or> (\<exists>m. fst (create_post w_no_button 0 (u ''Hello'') []) = Inl (External m)))"
  using create_post_no_button_fails[OF w_no_button_no_way, of "u ''Hello''"] w_no_button_no_way
  by blast

lemma success_indicator_loop_returns:
  "fst (success_indicator_loop w driver inds t) = Inr None
     \<or> fst (success_indicator_loop w driver inds t) = Inr (Some True)"
  by (induction inds arbitrary: t) (auto simp: prog_defs split: reply.splits)

lemma emits_success_indicator_loop:
  "emits (\<lambda>c. \<not> is_quit c) (success_indicator_loop w driver inds)"
  by (induction inds) (auto intro!: emits_rules simp: is_quit_def)

lemma verify_post_unverified:
  assumes "fst (success_indicator_loop w driver success_indicators (t @ [Sleep 10000])) = Inr None"
  shows "fst (verify_post w driver t) = Inr True
         \<and> snd (verify_post w driver t)
             = snd (success_indicator_loop w driver success_indicators (t @ [Sleep 10000]))
               @ [unverified_warning]"
  using assms
  by (cases "success_indicator_loop w driver success_indicators (t @ [Sleep 10000])")
     (auto simp: verify_post_def prog_defs unverified_warning_def)

text \<open>The loop over the probes runs to its end exactly when no probe matches.\<close>

lemma success_indicator_loop_None_iff:
  "fst (success_indicator_loop w driver inds t) = Inr None
     \<longleftrightarrow> no_indicator_shown w driver inds t"
proof (induction inds arbitrary: t)
  case Nil
  then show ?case by (simp add: ret_def)
next
  case (Cons i inds)
  show ?case
  proof (cases "answer w t (WaitPresence driver 5 By_XPATH i)")
    case (RElem e)
    then show ?thesis
      using Cons[of "t @ [WaitPresence driver 5 By_XPATH i, IsDisplayed e]"]
      by (cases "answer w (t @ [WaitPresence driver 5 By_XPATH i]) (IsDisplayed e)")
         (auto simp: prog_defs split: bool.splits)
  qed (insert Cons[of "t @ [WaitPresence driver 5 By_XPATH i]"], simp_all add: prog_defs)
qed

text \<open>
  Claim C5. When everything up to the submitting click returned normally and none of the
  three probes matches within its wait, \<open>create_post\<close> does not raise and does not return
  \<open>False\<close>: it returns \<open>True\<close>, and its last event is the printed warning.
\<close>

theorem create_post_unverified_succeeds:
  assumes "compose_and_submit w driver content t = (Inr (), t3)"
      and "no_indicator_shown w driver success_indicators (t3 @ [Sleep 10000])"
  shows "fst (create_post w driver content t) = Inr True
         \<and> last (snd (create_post w driver content t)) = unverified_warning"
proof -
  have none: "fst (success_indicator_loop w driver success_indicators (t3 @ [Sleep 10000])) = Inr None"
    using assms(2) by (simp add: success_indicator_loop_None_iff)
  have "create_post w driver content t = verify_post w driver t3"
    using assms(1) verify_post_unverified[OF none]
    by (cases "verify_post w driver t3") (auto simp: create_post_def seq_def bindp_def try_except_def)
  then show ?thesis using verify_post_unverified[OF none] by simp
qed

lemma w_unverified_compose:
  "fst (compose_and_submit w_unverified 0 (u ''Hello'') []) = Inr ()"
  by (simp add: compose_and_submit_def open_composer_def click_post_button_def find_post_field_def
        enter_content_def find_submit_button_def prog_defs w_unverified_def string_defs)

lemma w_unverified_probes:
  "no_indicator_shown w_unverified 0 success_indicators t"
  by (simp add: success_indicators_def w_unverified_def)

theorem create_post_unverified_witness:
  "fst (compose_and_submit w_unverified 0 (u ''Hello'') []) = Inr ()
   \<and> no_indicator_shown w_unverified 0 success_indicators
        (snd (compose_and_submit w_unverified 0 (u ''Hello'') []) @ [Sleep 10000])
   \<and> fst (create_post w_unverified 0 (u ''Hello'') []) = Inr True
   \<and> last (snd (create_post w_unverified 0 (u ''Hello'') [])) = unverified_warning"
proof -
  have a: "compose_and_submit w_unverified 0 (u ''Hello'') []
             = (Inr (), snd (compose_and_submit w_unverified 0 (u ''Hello'') []))"
    using w_unverified_compose by (cases "compose_and_submit w_unverified 0 (u ''Hello'') []") simp
  show ?thesis
    using create_post_unverified_succeeds[OF a w_unverified_probes] w_unverified_compose
      w_unverified_probes
    by blast
qed

section \<open>The whole run: the session is quit once\<close>

lemma emits_harmless_not_quit: "emits harmless m \<Longrightarrow> emits (\<lambda>c. \<not> is_quit c) m"
  by (erule emits_weaken) (simp add: harmless_def)

lemma emits_load_cookies: "emits (\<lambda>c. \<not> is_quit c) (load_cookies w self driver)"
  unfolding load_cookies_def
  by (intro emits_rules emits_add_cookies; simp add: is_quit_def)

lemma emits_cookie_login: "emits (\<lambda>c. \<not> is_quit c) (cookie_login w self driver)"
  unfolding cookie_login_def
  by (intro emits_rules emits_load_cookies emits_harmless_not_quit[OF emits_check_login_status];
      simp add: is_quit_def)

lemma emits_login_to_linkedin: "emits (\<lambda>c. \<not> is_quit c) (login_to_linkedin w self driver)"
  unfolding login_to_linkedin_def
  by (intro emits_rules emits_cookie_login emits_harmless_not_quit[OF emits_manual_login]
        emits_harmless_not_quit[OF emits_on_login_error_harmless])

lemma emits_enter_paragraphs:
  "emits (\<lambda>c. \<not> is_quit c) (enter_paragraphs w driver field ps)"
  by (induction ps) (auto intro!: emits_rules simp: is_quit_def)

lemma emits_compose_and_submit:
  "emits (\<lambda>c. \<not> is_quit c) (compose_and_submit w driver content)"
  unfolding compose_and_submit_def open_composer_def click_post_button_def find_post_field_def
    enter_content_def find_submit_button_def
  by (intro emits_rules emits_enter_paragraphs; simp add: is_quit_def)

lemma emits_verify_post: "emits (\<lambda>c. \<not> is_quit c) (verify_post w driver)"
  unfolding verify_post_def
  by (intro emits_rules emits_success_indicator_loop; simp add: is_quit_def)

lemma emits_create_post: "emits (\<lambda>c. \<not> is_quit c) (create_post w driver content)"
  unfolding create_post_def
  by (intro emits_rules emits_compose_and_submit emits_verify_post
        emits_weaken[OF emits_on_create_post_error])
     (auto simp: diagnostic_def is_quit_def split: call.splits)

lemma emits_publish: "emits (\<lambda>c. \<not> is_quit c) (publish w self driver formatted)"
  unfolding publish_def
  by (intro emits_rules emits_login_to_linkedin emits_create_post; simp add: is_quit_def)

lemma emits_on_post_error: "emits (\<lambda>c. \<not> is_quit c) (on_post_error e)"
  unfolding on_post_error_def by (intro emits_rules; simp add: is_quit_def)

lemma emits_directories_of: "emits (\<lambda>c. \<not> is_quit c) (directories_of w names)"
  by (induction names) (auto intro!: emits_rules simp: is_quit_def)

lemma emits_get_latest_post: "emits (\<lambda>c. \<not> is_quit c) (get_latest_post w)"
  unfolding get_latest_post_def
  by (intro emits_rules emits_directories_of; simp add: is_quit_def)

lemma emits_prepare: "emits (\<lambda>c. \<not> is_quit c) (prepare w self content)"
  unfolding prepare_def get_driver_def
  by (intro emits_rules emits_get_latest_post; simp add: is_quit_def)

lemma try_finally_quit:
  "snd (try_finally m (perform w (Quit driver)) t) = snd (m t) @ [Quit driver]"
  by (cases "m t") (auto simp: try_finally_def perform_def split: reply.splits)

lemma post_to_linkedin_events:
  assumes "prepare w self content t = (Inr (formatted_content, driver, self'), t1)"
  shows "\<exists>evs. new_events (post_to_linkedin w self content) t = evs @ [Quit driver]
               \<and> list_all (\<lambda>c. \<not> is_quit c) evs"
proof -
  from emitsD[OF emits_prepare, of w self content t] assms
  obtain evs0 where e0: "t1 = t @ evs0" "list_all (\<lambda>c. \<not> is_quit c) evs0" by auto
  have "emits (\<lambda>c. \<not> is_quit c) (try_except (publish w self' driver formatted_content) on_post_error)"
    by (intro emits_try_except emits_publish emits_on_post_error)
  from emitsD[OF this, of t1]
  obtain evs1 where e1:
    "snd (try_except (publish w self' driver formatted_content) on_post_error t1) = t1 @ evs1"
    "list_all (\<lambda>c. \<not> is_quit c) evs1" by blast
  have "snd (post_to_linkedin w self content t) = t1 @ evs1 @ [Quit driver]"
    using assms e1(1) by (simp add: post_to_linkedin_def try_finally_quit)
  then have "new_events (post_to_linkedin w self content) t = (evs0 @ evs1) @ [Quit driver]"
    by (simp add: new_events_def e0(1))
  moreover have "list_all (\<lambda>c. \<not> is_quit c) (evs0 @ evs1)" using e0(2) e1(2) by simp
  ultimately show ?thesis by blast
qed

text \<open>
  Once \<open>get_driver\<close> has returned a session (line 396 has assigned \<open>driver\<close>), the
  teardown is guaranteed: whatever happens afterwards (the login or the posting returns
  \<open>False\<close>, any call raises, or the post is published), exactly one of the events of the
  run is a \<open>quit\<close>, it is the \<open>quit\<close> of that session, and it is the last event of the
  run.
\<close>

theorem post_to_linkedin_quits_once:
  assumes "prepare w self content t = (Inr (formatted_content, driver, self'), t1)"
  shows "filter is_quit (new_events (post_to_linkedin w self content) t) = [Quit driver]
         \<and> last (snd (post_to_linkedin w self content t)) = Quit driver"
proof -
  from post_to_linkedin_events[OF assms] obtain evs where
    evs: "new_events (post_to_linkedin w self content) t = evs @ [Quit driver]"
         "list_all (\<lambda>c. \<not> is_quit c) evs" by blast
  have f: "filter is_quit evs = []" using evs(2) by (simp add: list_all_iff)
  have "length t \<le> length (snd (post_to_linkedin w self content t))"
  proof (rule ccontr)
    assume "\<not> ?thesis"
    then have "new_events (post_to_linkedin w self content) t = []" by (simp add: new_events_def)
    with evs(1) show False by simp
  qed
  then have "snd (post_to_linkedin w self content t)
               = take (length t) (snd (post_to_linkedin w self content t)) @ evs @ [Quit driver]"
    using evs(1) by (metis append_take_drop_id new_events_def)
  then have "last (snd (post_to_linkedin w self content t)) = Quit driver"
    by (metis append_assoc last_snoc)
  then show ?thesis using evs(1) f by (simp add: is_quit_def)
qed

text \<open>When the preparation raises, \<open>driver\<close> is still \<open>None\<close> and nothing is quit.\<close>

lemma post_to_linkedin_no_session:
  assumes "fst (prepare w self content t) = Inl e"
  shows "\<not> list_ex is_quit (new_events (post_to_linkedin w self content) t)"
proof -
  obtain t1 where p: "prepare w self content t = (Inl e, t1)" using assms by (cases "prepare w self content t") auto
  from emitsD[OF emits_prepare, of w self content t] p
  obtain evs0 where e0: "t1 = t @ evs0" "list_all (\<lambda>c. \<not> is_quit c) evs0" by auto
  have "snd (post_to_linkedin w self content t) = t1 @ [Print [Lit ''Error posting to LinkedIn: '', Err e]]"
    using p by (simp add: post_to_linkedin_def on_post_error_def prog_defs)
  then show ?thesis using e0 by (auto simp: new_events_def list_all_iff list_ex_iff is_quit_def)
qed

lemma w_login_fails_prepare:
  "prepare w_login_fails (init_poster None None) (Some (u ''Hello'')) []
     = (Inr (u ''Hello'', 1, (init_poster None None)\<lparr>options := options (init_poster None None) @ [''--headless'']\<rparr>),
        [InstallChromeDriver, NewChrome (options (init_poster None None)),
         ExecuteCdpCmd 1 ''Page.addScriptToEvaluateOnNewDocument''])"
  by (simp add: prepare_def get_driver_def prog_defs w_login_fails_def format_defs string_defs ascii_ucd_def)

theorem post_to_linkedin_quits_once_witness:
  "fst (prepare w_login_fails (init_poster None None) (Some (u ''Hello'')) [])
      = Inr (u ''Hello'', 1, (init_poster None None)\<lparr>options := options (init_poster None None) @ [''--headless'']\<rparr>)
   \<and> filter is_quit (new_events (post_to_linkedin w_login_fails (init_poster None None) (Some (u ''Hello''))) [])
      = [Quit 1]
   \<and> last (snd (post_to_linkedin w_login_fails (init_poster None None) (Some (u ''Hello'')) [])) = Quit 1"
  using post_to_linkedin_quits_once[OF w_login_fails_prepare] w_login_fails_prepare by simp

text \<open>
  Claim C2 fails on one path of the code. \<open>get_driver\<close> starts Chrome (line 39) and
  then sends it a command (line 42). When that command raises, \<open>get_driver\<close> does not
  return, the variable \<open>driver\<close> of \<open>post_to_linkedin\<close> is still \<open>None\<close>, and the
  \<open>finally\<close> of line 425 quits nothing: the session that was created stays open. On a
  machine where Chrome starts as session 1 and refuses the command, the run has these
  four events, none of them a \<open>quit\<close>, and returns \<open>False\<close>.
\<close>

theorem post_to_linkedin_leaves_session_open:
  "answer w_cdp_fails [InstallChromeDriver] (NewChrome (options (init_poster None None))) = RDriver 1
   \<and> post_to_linkedin w_cdp_fails (init_poster None None) (Some (u ''Hello'')) []
       = (Inr False,
          [InstallChromeDriver, NewChrome (options (init_poster None None)),
           ExecuteCdpCmd 1 ''Page.addScriptToEvaluateOnNewDocument'',
           Print [Lit ''Error posting to LinkedIn: '', Err (External ''unknown command'')]])
   \<and> filter is_quit (new_events (post_to_linkedin w_cdp_fails (init_poster None None) (Some (u ''Hello''))) [])
       = []"
  by (simp add: post_to_linkedin_def prepare_def get_driver_def on_post_error_def prog_defs
        w_cdp_fails_def new_events_def is_quit_def)

section \<open>The formatter: what the output is made of\<close>

lemma strip_tidy: "tidy s \<Longrightarrow> strip s = s"
proof -
  assume t: "tidy s"
  then obtain a as where s: "s = a # as" by (cases s) (auto simp: tidy_def)
  have d: "dropWhile is_space s = s" using t s by (simp add: tidy_def)
  have "hd (rev s) = last s" using s by (simp add: hd_rev)
  then have "dropWhile is_space (rev s) = rev s"
    using t s by (cases "rev s") (auto simp: tidy_def)
  then show ?thesis by (simp add: strip_def d)
qed

lemma tidy_strip: "strip s \<noteq> [] \<Longrightarrow> tidy (strip s)"
proof -
  assume ne: "strip s \<noteq> []"
  let ?d = "dropWhile is_space s"
  let ?e = "dropWhile is_space (rev ?d)"
  have e: "?e \<noteq> []" using ne by (simp add: strip_def)
  have d: "?d \<noteq> []"
  proof
    assume "?d = []"
    then have "?e = []" by (simp del: dropWhile_eq_Nil_conv)
    with e show False by (simp del: dropWhile_eq_Nil_conv)
  qed
  have l: "\<not> is_space (last (rev ?e))" using e by (simp add: last_rev hd_dropWhile)
  have "last ?e = last (rev ?d)"
    using e by (metis (no_types) append_take_drop_id dropWhile_eq_drop last_appendR)
  then have "hd (rev ?e) = hd ?d" using e d by (simp add: hd_rev last_rev)
  moreover have "\<not> is_space (hd ?d)" using d by (simp add: hd_dropWhile)
  ultimately show ?thesis using e l by (simp add: tidy_def strip_def)
qed

lemma clean_lines_tidy: "l \<in> set (clean_lines content) \<Longrightarrow> tidy l"
  by (auto simp: clean_lines_def tidy_strip)

lemma kept_lines_tidy: "l \<in> set (kept_lines content) \<Longrightarrow> tidy l"
  by (auto simp: kept_lines_def clean_lines_tidy)

lemma join_Cons: "join sep (x # xs) = (if xs = [] then x else x @ sep @ join sep xs)"
  by (cases xs) simp_all

lemma join_append:
  "join sep (xs @ ys) =
     (if xs = [] then join sep ys else if ys = [] then join sep xs
      else join sep xs @ sep @ join sep ys)"
  by (induction xs) (auto simp: join_Cons)

lemma join_nested:
  "c \<noteq> [] \<Longrightarrow> join sep (s @ join sep c # x) = join sep (s @ c @ x)"
  by (simp add: join_append join_Cons)

lemma join_flush_append: "join nl (flush s c @ x) = join nl (s @ c @ x)"
  using join_nested[of c nl s x] by (simp add: flush_def)

lemma format_lines_join:
  "format_lines db i lines s c = (s', c') \<Longrightarrow>
     join nl (s' @ c') = join nl (s @ c @ filter (\<lambda>line. \<not> startswith line (u ''---'')) lines)"
proof (induction lines arbitrary: i s c)
  case Nil
  then show ?case by simp
next
  case (Cons line rest)
  show ?case
  proof (cases "startswith line (u ''---'')")
    case True
    then show ?thesis using Cons by simp
  next
    case keep: False
    let ?r = "filter (\<lambda>line. \<not> startswith line (u ''---'')) rest"
    consider (own) "format_lines db i (line # rest) s c = format_lines db (Suc i) rest (flush s c @ [line]) []"
      | (cut) "c \<noteq> []" "format_lines db i (line # rest) s c = format_lines db (Suc i) rest (s @ [join nl c]) [line]"
      | (add) "format_lines db i (line # rest) s c = format_lines db (Suc i) rest s (c @ [line])"
      using keep
      by (cases "is_header db i line"; cases "is_bullet line"; cases "startswith line (u ''#'')";
          cases "c \<noteq> [] \<and> \<not> is_bullet (last c)") auto
    then show ?thesis
    proof cases
      case own
      with Cons.prems have "format_lines db (Suc i) rest (flush s c @ [line]) [] = (s', c')" by simp
      from Cons.IH[OF this] have "join nl (s' @ c') = join nl (flush s c @ ([line] @ ?r))" by simp
      then show ?thesis using keep by (simp only: join_flush_append) simp
    next
      case cut
      with Cons.prems have "format_lines db (Suc i) rest (s @ [join nl c]) [line] = (s', c')" by simp
      from Cons.IH[OF this] have "join nl (s' @ c') = join nl (s @ join nl c # (line # ?r))" by simp
      then show ?thesis using keep cut(1) by (simp add: join_nested)
    next
      case add
      with Cons.prems have "format_lines db (Suc i) rest s (c @ [line]) = (s', c')" by simp
      from Cons.IH[OF this] show ?thesis using keep by simp
    qed
  qed
qed

lemma tidy_join:
  "xs \<noteq> [] \<Longrightarrow> list_all tidy xs \<Longrightarrow> tidy (join nl xs)"
proof (induction xs rule: join.induct[where ?a0.0 = nl])
  case (1 sep)
  then show ?case by simp
next
  case (2 sep x)
  then show ?case by simp
next
  case (3 sep x y ys)
  then show ?case by (auto simp: tidy_def)
qed


lemma tidy_flush: "list_all tidy s \<Longrightarrow> list_all tidy c \<Longrightarrow> list_all tidy (flush s c)"
  by (simp add: flush_def tidy_join)

lemma format_lines_tidy:
  "format_lines db i lines s c = (s', c') \<Longrightarrow> list_all tidy lines \<Longrightarrow> list_all tidy s \<Longrightarrow>
     list_all tidy c \<Longrightarrow> list_all tidy s' \<and> list_all tidy c'"
proof (induction lines arbitrary: i s c)
  case Nil
  then show ?case by simp
next
  case (Cons line rest)
  have f: "list_all tidy (flush s c @ [line])" using Cons.prems by (simp add: tidy_flush)
  have j: "c \<noteq> [] \<Longrightarrow> list_all tidy (s @ [join nl c])" using Cons.prems by (simp add: tidy_join)
  have a: "list_all tidy (c @ [line])" using Cons.prems by simp
  have r: "list_all tidy rest" using Cons.prems by simp
  note ih = Cons.IH[OF _ r]
  show ?case
    using Cons.prems(1) ih[of "Suc i" "flush s c @ [line]" "[]", OF _ f]
      ih[of "Suc i" "s @ [join nl c]" "[line]"] j Cons.prems(2)
      ih[of "Suc i" s "c @ [line]", OF _ Cons.prems(3) a]
      ih[of "Suc i" s c, OF _ Cons.prems(3) Cons.prems(4)]
    by (auto split: if_splits)
qed

lemma join_sections_tidy:
  "list_all tidy secs \<Longrightarrow> (0 < i \<longleftrightarrow> acc \<noteq> []) \<Longrightarrow>
     join_sections i secs acc =
       (if acc = [] then join nl secs else if secs = [] then acc else acc @ nl @ join nl secs)"
proof (induction secs arbitrary: i acc)
  case Nil
  then show ?case by simp
next
  case (Cons x xs)
  then have x: "strip x = x" "x \<noteq> []" by (simp_all add: strip_tidy tidy_def)
  show ?case
  proof (cases "acc = []")
    case True
    then have "join_sections i (x # xs) acc = join_sections (Suc i) xs x"
      using Cons.prems x by simp
    also have "\<dots> = (if xs = [] then x else x @ nl @ join nl xs)"
      using Cons.IH[of "Suc i" x] Cons.prems x by simp
    finally show ?thesis using True by (simp add: join_Cons)
  next
    case False
    then have "join_sections i (x # xs) acc = join_sections (Suc i) xs (acc @ nl @ x)"
      using Cons.prems x by simp
    also have "\<dots> = (if xs = [] then acc @ nl @ x else (acc @ nl @ x) @ nl @ join nl xs)"
      using Cons.IH[of "Suc i" "acc @ nl @ x"] Cons.prems False by simp
    finally show ?thesis using False by (simp add: join_Cons)
  qed
qed

lemma format_post_kept:
  "format_post db content = strip (hashtag_step (join nl (kept_lines content)))"
proof -
  obtain s c where sc: "format_lines db 0 (clean_lines content) [] [] = (s, c)"
    by (cases "format_lines db 0 (clean_lines content) [] []")
  have t: "list_all tidy (clean_lines content)" by (simp add: list_all_iff clean_lines_tidy)
  from format_lines_tidy[OF sc t] have "list_all tidy (flush s c)" by (simp add: tidy_flush)
  then have "join_sections 0 (flush s c) [] = join nl (flush s c)"
    by (simp add: join_sections_tidy)
  also have "\<dots> = join nl (s @ c)" using join_flush_append[of s c "[]"] by simp
  also have "\<dots> = join nl (kept_lines content)"
    using format_lines_join[OF sc] by (simp add: kept_lines_def)
  finally show ?thesis by (simp add: format_post_def sc)
qed



lemma set_strip: "set (strip s) \<subseteq> set s"
proof -
  have "set (dropWhile is_space (rev (dropWhile is_space s))) \<subseteq> set (rev (dropWhile is_space s))"
    by (rule set_dropWhileD[THEN subsetI])
  also have "\<dots> \<subseteq> set s" using set_dropWhileD[of _ is_space s] by auto
  finally show ?thesis by (simp add: strip_def)
qed





lemma splitlines_no_linebreak: "l \<in> set (splitlines s) \<Longrightarrow> c \<in> set l \<Longrightarrow> \<not> is_linebreak c"
proof (induction s arbitrary: l rule: splitlines.induct)
  case 1
  then show ?case by simp
next
  case (2 d ds)
  show ?case
  proof (cases "is_linebreak d")
    case True
    then have "l = [] \<or> l \<in> set (splitlines (if d = 13 \<and> ds \<noteq> [] \<and> hd ds = 10 then tl ds else ds))"
      using 2(3) by simp
    then show ?thesis using 2(1)[OF True] 2(4) by auto
  next
    case False
    show ?thesis
    proof (cases "splitlines ds")
      case Nil
      then show ?thesis using False 2(3,4) by simp
    next
      case (Cons x xs)
      then have "l = d # x \<or> l \<in> set xs" using False 2(3) by simp
      then show ?thesis using 2(2)[OF False, of x] 2(2)[OF False, of l] Cons False 2(4) by auto
    qed
  qed
qed

lemma kept_lines_no_linebreak:
  assumes "l \<in> set (kept_lines content)"
  shows "list_all (\<lambda>c. \<not> is_linebreak c) l"
proof -
  from assms obtain r where r: "r \<in> set (splitlines (replace (u ''**'') [] content))" "l = strip r"
    by (auto simp: kept_lines_def clean_lines_def)
  have "set l \<subseteq> set r" using r(2) set_strip by simp
  then show ?thesis using splitlines_no_linebreak[OF r(1)] by (auto simp: list_all_iff)
qed




lemma kept_text_tidy:
  "kept_lines content \<noteq> [] \<Longrightarrow> tidy (join nl (kept_lines content))"
  by (rule tidy_join) (simp_all add: list_all_iff kept_lines_tidy)







lemma dashes_def: "u ''---'' = [45, 45, 45]"
  by (simp add: u_def)

lemma marker_from_start:
  "marker_line_from True s \<longleftrightarrow> prefix (u ''---'') s \<or> marker_line_from False s"
  by (cases s) (auto simp: dashes_def)

lemma marker_weaken: "marker_line_from False s \<Longrightarrow> marker_line_from b s"
  by (cases s) auto

lemma prefix_dashes_cut:
  "c \<noteq> 45 \<Longrightarrow> prefix (u ''---'') (x @ c # y) \<longleftrightarrow> prefix (u ''---'') x"
proof -
  assume c: "c \<noteq> 45"
  show ?thesis
  proof (cases x)
    case Nil
    then show ?thesis using c by (simp add: dashes_def)
  next
    case x1: (Cons a xa)
    show ?thesis
    proof (cases xa)
      case Nil
      then show ?thesis using c x1 by (simp add: dashes_def)
    next
      case x2: (Cons b xb)
      show ?thesis
      proof (cases xb)
        case Nil
        then show ?thesis using c x1 x2 by (simp add: dashes_def)
      next
        case (Cons d xc)
        then show ?thesis using x1 x2 by (simp add: dashes_def)
      qed
    qed
  qed
qed

lemma marker_append_sep:
  "c \<noteq> 45 \<Longrightarrow>
     marker_line_from b (x @ c # y) \<longleftrightarrow> marker_line_from b x \<or> marker_line_from (is_linebreak c) y"
proof (induction x arbitrary: b)
  case Nil
  then show ?case by (simp add: dashes_def)
next
  case (Cons a x)
  have "prefix (u ''---'') ((a # x) @ c # y) \<longleftrightarrow> prefix (u ''---'') (a # x)"
    using Cons.prems by (rule prefix_dashes_cut)
  then show ?case using Cons by auto
qed

lemma marker_prefix: "marker_line_from b x \<Longrightarrow> marker_line_from b (x @ y)"
proof (induction x arbitrary: b)
  case Nil
  then show ?case by simp
next
  case (Cons a x)
  then show ?case by (auto simp: dashes_def prefix_def)
qed

lemma marker_suffix: "marker_line_from False y \<Longrightarrow> marker_line_from b (x @ y)"
proof (induction x arbitrary: b)
  case Nil
  then show ?case by (simp add: marker_weaken)
next
  case (Cons a x)
  then show ?case by simp
qed

lemma strip_is_prefix: "\<exists>z. dropWhile is_space s = strip s @ z"
proof -
  let ?d = "dropWhile is_space s"
  have "rev ?d = takeWhile is_space (rev ?d) @ dropWhile is_space (rev ?d)" by simp
  then have "?d = rev (dropWhile is_space (rev ?d)) @ rev (takeWhile is_space (rev ?d))"
    by (metis rev_append rev_rev_ident)
  then show ?thesis unfolding strip_def by blast
qed

lemma marker_strip_start:
  "\<not> marker_line_from b (dropWhile is_space s) \<Longrightarrow> \<not> marker_line_from b (strip s)"
  using strip_is_prefix[of s] marker_prefix by metis

lemma marker_strip_inner: "\<not> marker_line_from False s \<Longrightarrow> \<not> marker_line_from False (strip s)"
proof -
  assume a: "\<not> marker_line_from False s"
  have "s = takeWhile is_space s @ dropWhile is_space s" by simp
  then have "\<not> marker_line_from False (dropWhile is_space s)"
    using a marker_suffix by metis
  then show ?thesis by (rule marker_strip_start)
qed

lemma marker_plain_line:
  "list_all (\<lambda>c. \<not> is_linebreak c) l \<Longrightarrow> marker_line_from b l \<longleftrightarrow> b \<and> prefix (u ''---'') l"
  by (induction l arbitrary: b) (auto simp: dashes_def)

lemma marker_join_lines:
  "list_all (\<lambda>l. list_all (\<lambda>c. \<not> is_linebreak c) l \<and> \<not> prefix (u ''---'') l) ls \<Longrightarrow>
     \<not> marker_line_from True (join nl ls)"
proof (induction ls)
  case Nil
  then show ?case by simp
next
  case (Cons l ls)
  show ?case
  proof (cases "ls = []")
    case True
    then show ?thesis using Cons.prems by (simp add: marker_plain_line)
  next
    case False
    have "marker_line_from True (l @ 10 # join nl ls)
            \<longleftrightarrow> marker_line_from True l \<or> marker_line_from (is_linebreak 10) (join nl ls)"
      by (rule marker_append_sep) simp
    then show ?thesis using False Cons by (simp add: join_Cons nl_def marker_plain_line is_linebreak_def)
  qed
qed

lemma kept_text_no_marker: "\<not> marker_line_from True (join nl (kept_lines content))"
proof (rule marker_join_lines)
  show "list_all (\<lambda>l. list_all (\<lambda>c. \<not> is_linebreak c) l \<and> \<not> prefix (u ''---'') l) (kept_lines content)"
    using kept_lines_no_linebreak by (auto simp: list_all_iff) (simp add: kept_lines_def startswith_def)
qed

lemma split_not_Nil: "split sep s \<noteq> []"
  by (induction sep s rule: split.induct) (auto split: list.splits)

lemma join_split: "sep \<noteq> [] \<Longrightarrow> join sep (split sep s) = s"
proof (induction sep s rule: split.induct)
  case (1 sep)
  then show ?case by simp
next
  case (2 sep c cs)
  show ?case
  proof (cases "prefix sep (c # cs)")
    case True
    then obtain r where r: "c # cs = sep @ r" by (auto simp: prefix_def)
    then have d: "drop (length sep) (c # cs) = r" by simp
    have i: "join sep (split sep r) = r" using 2(1) True 2(3) d by simp
    have e: "split sep (c # cs) = [] # split sep r" using True 2(3) d by simp
    have "join sep (split sep (c # cs)) = sep @ r"
      unfolding e using i split_not_Nil[of sep r] by (simp add: join_Cons)
    then show ?thesis using r by simp
  next
    case False
    obtain p ps where p: "split sep cs = p # ps" using split_not_Nil[of sep cs] by (cases "split sep cs") auto
    have "join sep (p # ps) = cs" using 2(2) False 2(3) p by simp
    then show ?thesis using False p by (auto simp: join_Cons split: if_splits)
  qed
qed

lemma marker_join_hash:
  "marker_line_from b (join [35] (p # ps))
     \<longleftrightarrow> marker_line_from b p \<or> list_ex (marker_line_from False) ps"
proof (induction ps arbitrary: p b)
  case Nil
  then show ?case by simp
next
  case (Cons q qs)
  have "marker_line_from b (p @ 35 # join [35] (q # qs))
          \<longleftrightarrow> marker_line_from b p \<or> marker_line_from (is_linebreak 35) (join [35] (q # qs))"
    by (rule marker_append_sep) simp
  then show ?case using Cons[of False q] by (simp add: is_linebreak_def)
qed

lemma marker_join_space_hash:
  "marker_line_from b (join [32, 35] (p # ps))
     \<longleftrightarrow> marker_line_from b p \<or> list_ex (marker_line_from False) ps"
proof (induction ps arbitrary: p b)
  case Nil
  then show ?case by simp
next
  case (Cons q qs)
  have "marker_line_from b (p @ 32 # (35 # join [32, 35] (q # qs)))
          \<longleftrightarrow> marker_line_from b p \<or> marker_line_from (is_linebreak 32) (35 # join [32, 35] (q # qs))"
    by (rule marker_append_sep) simp
  then show ?case using Cons[of False q] by (simp add: is_linebreak_def dashes_def)
qed

lemma marker_hashtag_line:
  assumes "\<forall>p\<in>set ps. \<not> marker_line_from False p"
  shows "\<not> marker_line_from b (35 # join [32, 35] (map strip ps))"
proof (cases ps)
  case Nil
  then show ?thesis by (simp add: dashes_def)
next
  case (Cons q qs)
  have "\<not> marker_line_from False (join [32, 35] (strip q # map strip qs))"
    unfolding marker_join_space_hash using assms Cons
    by (auto simp: list_ex_iff marker_strip_inner)
  then show ?thesis using Cons by (simp add: dashes_def is_linebreak_def)
qed

lemma hashtag_step_no_marker:
  "\<not> marker_line_from True (dropWhile is_space (hashtag_step (join nl (kept_lines content))))"
proof -
  let ?t = "join nl (kept_lines content)"
  have safe: "\<not> marker_line_from True ?t" by (rule kept_text_no_marker)
  have start: "dropWhile is_space ?t = ?t"
  proof (cases "kept_lines content = []")
    case True
    then show ?thesis by simp
  next
    case False
    then have "tidy ?t" by (rule kept_text_tidy)
    then show ?thesis by (cases ?t) (auto simp: tidy_def)
  qed
  show ?thesis
  proof (cases "contains (u ''#'') ?t")
    case False
    then show ?thesis using safe start by (simp add: hashtag_step_def)
  next
    case True
    obtain p ps where sp: "split [35] ?t = p # ps"
      using split_not_Nil[of "[35]" ?t] by (cases "split [35] ?t") auto
    have j: "join [35] (p # ps) = ?t" using join_split[of "[35]" ?t] sp by simp
    have m: "\<not> marker_line_from True p" "\<forall>q\<in>set ps. \<not> marker_line_from False q"
      using safe marker_join_hash[of True p ps] j by (auto simp: list_ex_iff)
    let ?h = "35 # join [32, 35] (map strip ps)"
    have h: "hashtag_step ?t = strip p @ 10 # ?h"
      using True sp by (simp add: hashtag_step_def u_def nl_def)
    have tail: "\<not> marker_line_from b ?h" for b using m(2) by (rule marker_hashtag_line)
    have pstart: "dropWhile is_space p = p"
    proof (cases p)
      case Nil
      then show ?thesis by simp
    next
      case (Cons a as)
      have "?t = join [35] (p # ps)" using j by simp
      then obtain r where r: "?t = a # r"
        using Cons by (cases "ps = []") (simp_all add: join_Cons)
      have "dropWhile is_space (a # r) = a # r" using start r by simp
      have "\<not> is_space a"
      proof
        assume "is_space a"
        then have "dropWhile is_space r = a # r" using \<open>dropWhile is_space (a # r) = a # r\<close> by simp
        then have "length (a # r) \<le> length r" using length_dropWhile_le[of is_space r] by simp
        then show False by simp
      qed
      then show ?thesis using Cons by simp
    qed
    have sfirst: "\<not> marker_line_from True (strip p)"
      using m(1) pstart marker_strip_start[of True p] by simp
    show ?thesis
    proof (cases "strip p = []")
      case True
      then have "dropWhile is_space (hashtag_step ?t) = ?h"
        using h by (simp add: is_space_def)
      then show ?thesis using tail by simp
    next
      case False
      then have "tidy (strip p)" by (rule tidy_strip)
      then have "dropWhile is_space (hashtag_step ?t) = strip p @ 10 # ?h"
        using h by (cases "strip p") (auto simp: tidy_def)
      moreover have "marker_line_from True (strip p @ 10 # ?h)
           \<longleftrightarrow> marker_line_from True (strip p) \<or> marker_line_from (is_linebreak 10) ?h"
        by (rule marker_append_sep) simp
      ultimately show ?thesis using sfirst tail by simp
    qed
  qed
qed

lemma format_post_no_marker: "\<not> marker_line_from True (format_post db content)"
  unfolding format_post_kept by (rule marker_strip_start) (rule hashtag_step_no_marker)

lemma first_line_prefix: "splitlines s = x # xs \<Longrightarrow> prefix x s"
proof (induction s arbitrary: x xs rule: splitlines.induct)
  case 1
  then show ?case by simp
next
  case (2 c cs)
  show ?case
  proof (cases "is_linebreak c")
    case True
    then show ?thesis using 2(3) by simp
  next
    case False
    show ?thesis
    proof (cases "splitlines cs")
      case Nil
      then show ?thesis using False 2(3) by auto
    next
      case (Cons y ys)
      then have "x = c # y" using False 2(3) by simp
      then show ?thesis using 2(2)[OF False Cons] by simp
    qed
  qed
qed

lemma line_marker_both:
  "(\<forall>l. l \<in> set (splitlines s) \<and> prefix (u ''---'') l \<longrightarrow> marker_line_from True s)
   \<and> (\<forall>l. l \<in> set (tl (splitlines s)) \<and> prefix (u ''---'') l \<longrightarrow> marker_line_from False s)"
proof (induction s rule: splitlines.induct)
  case 1
  then show ?case by simp
next
  case (2 c cs)
  show ?case
  proof (cases "is_linebreak c")
    case True
    let ?r = "if c = 13 \<and> cs \<noteq> [] \<and> hd cs = 10 then tl cs else cs"
    have sl: "splitlines (c # cs) = [] # splitlines ?r" using True by simp
    have ih: "\<And>l. l \<in> set (splitlines ?r) \<Longrightarrow> prefix (u ''---'') l \<Longrightarrow> marker_line_from True ?r"
      using 2(1)[OF True] by blast
    have up: "marker_line_from True ?r \<Longrightarrow> marker_line_from False (c # cs)"
    proof (cases "c = 13 \<and> cs \<noteq> [] \<and> hd cs = 10")
      case False
      assume "marker_line_from True ?r"
      then show ?thesis using False True by simp
    next
      case t: True
      assume a: "marker_line_from True ?r"
      from t obtain ds where "cs = 10 # ds" by (cases cs) auto
      then show ?thesis using a t True by (simp add: is_linebreak_def)
    qed
    have second: "\<And>l. l \<in> set (splitlines ?r) \<Longrightarrow> prefix (u ''---'') l \<Longrightarrow> marker_line_from False (c # cs)"
      using ih up by blast
    have first: "\<And>l. l \<in> set (splitlines (c # cs)) \<Longrightarrow> prefix (u ''---'') l \<Longrightarrow> marker_line_from True (c # cs)"
    proof -
      fix l assume l: "l \<in> set (splitlines (c # cs))" "prefix (u ''---'') l"
      then have "l \<noteq> []" by (auto simp: dashes_def)
      then have "l \<in> set (splitlines ?r)" using l(1) sl by auto
      then show "marker_line_from True (c # cs)" using second[OF _ l(2)] marker_weaken by blast
    qed
    show ?thesis using first second sl by (metis list.sel(3))
  next
    case False
    have ih1: "\<And>l. l \<in> set (splitlines cs) \<Longrightarrow> prefix (u ''---'') l \<Longrightarrow> marker_line_from True cs"
      and ih2: "\<And>l. l \<in> set (tl (splitlines cs)) \<Longrightarrow> prefix (u ''---'') l \<Longrightarrow> marker_line_from False cs"
      using 2(2)[OF False] by blast+
    have tl_eq: "tl (splitlines (c # cs)) = tl (splitlines cs)"
      using False by (cases "splitlines cs") auto
    have second: "\<And>l. l \<in> set (tl (splitlines (c # cs))) \<Longrightarrow> prefix (u ''---'') l \<Longrightarrow> marker_line_from False (c # cs)"
      using ih2 tl_eq False by simp
    have first: "\<And>l. l \<in> set (splitlines (c # cs)) \<Longrightarrow> prefix (u ''---'') l \<Longrightarrow> marker_line_from True (c # cs)"
    proof -
      fix l assume l: "l \<in> set (splitlines (c # cs))" "prefix (u ''---'') l"
      obtain x xs where x: "splitlines (c # cs) = x # xs"
        using l(1) by (cases "splitlines (c # cs)") auto
      show "marker_line_from True (c # cs)"
      proof (cases "l = x")
        case True
        then have "prefix l (c # cs)" using first_line_prefix[OF x] by simp
        then have "prefix (u ''---'') (c # cs)" using l(2) by (rule prefix_order.trans[rotated])
        then show ?thesis by simp
      next
        case False
        then have "l \<in> set (tl (splitlines (c # cs)))" using l(1) x by simp
        then show ?thesis using second[OF _ l(2)] marker_weaken by blast
      qed
    qed
    show ?thesis using first second by blast
  qed
qed

text \<open>
  Claim C10. A line that begins with three dashes, once trimmed, leaves the state of the
  loop as it was (it is skipped before any classification); the output is a function of
  the kept lines alone, so such a line contributes to no section; and no line of the
  output begins with three dashes.
\<close>

theorem format_post_drops_marker_lines:
  "(startswith line (u ''---'') \<longrightarrow>
      format_lines db i (line # rest) sections current = format_lines db (Suc i) rest sections current)
   \<and> format_post db content = strip (hashtag_step (join nl (kept_lines content)))
   \<and> (\<forall>l \<in> set (splitlines (format_post db content)). \<not> startswith l (u ''---''))"
proof -
  have "\<not> startswith l (u ''---'')" if "l \<in> set (splitlines (format_post db content))" for l
    using that line_marker_both[of "format_post db content"] format_post_no_marker[of db content]
    by (auto simp: startswith_def)
  then show ?thesis using format_post_kept by simp
qed

lemma marker_example_kept:
  "kept_lines (u ''---POST START---\<newline>Intro\<newline> --- draft ---\<newline>#Tag\<newline>---POST END---'') = [u ''Intro'', u ''#Tag'']"
  by (simp add: kept_lines_def clean_lines_def string_defs)

theorem format_post_drops_marker_lines_witness:
  "startswith (u ''---POST START---'') (u ''---'')
   \<and> format_lines ascii_ucd 0 [u ''---POST START---'', u ''Intro''] [] []
       = format_lines ascii_ucd (Suc 0) [u ''Intro''] [] []
   \<and> format_post ascii_ucd (u ''---POST START---\<newline>Intro\<newline> --- draft ---\<newline>#Tag\<newline>---POST END---'')
       = u ''Intro\<newline>#Tag''
   \<and> list_all (\<lambda>l. \<not> startswith l (u ''---''))
        (splitlines (format_post ascii_ucd (u ''---POST START---\<newline>Intro\<newline> --- draft ---\<newline>#Tag\<newline>---POST END---'')))"
proof -
  have a: "startswith (u ''---POST START---'') (u ''---'')" by (simp add: string_defs)
  have b: "strip (hashtag_step (join nl [u ''Intro'', u ''#Tag''])) = u ''Intro\<newline>#Tag''"
    by (simp add: hashtag_step_def string_defs)
  show ?thesis
    using a b marker_example_kept
      format_post_drops_marker_lines[of "u ''---POST START---''" ascii_ucd 0 "[u ''Intro'']" "[]" "[]"
        "u ''---POST START---\<newline>Intro\<newline> --- draft ---\<newline>#Tag\<newline>---POST END---''"]
    by (simp add: list_all_iff)
qed

end
